theory Spec2Isabelle
  imports Main "HOL-Library.Sublist"
begin

section \<open>Errors and the error-propagating loop\<close>

text \<open>
  The exceptions \<open>convert.py\<close> can raise, as values. \<open>ValueError\<close> and \<open>OverflowError\<close>
  come out of \<open>float\<close> and \<open>datetime.timedelta\<close>, \<open>KeyError\<close> out of a subscript on a
  dictionary (\<open>attrib[...]\<close>, \<open>noise[...]\<close>), \<open>AttributeError\<close> out of a method call on
  \<open>None\<close> (\<open>tail.strip()\<close>, \<open>find(...).iter(...)\<close>). Nothing in the file catches an
  exception, so a result is \<open>Inl\<close> of the first one raised or \<open>Inr\<close> of the value.
\<close>

datatype error = ValueError | OverflowError | KeyError | AttributeError

text \<open>A \<open>for\<close> loop whose body may raise: the first exception ends the loop.\<close>

fun foldM :: "('s \<Rightarrow> 'a \<Rightarrow> error + 's) \<Rightarrow> 's \<Rightarrow> 'a list \<Rightarrow> error + 's" where
  "foldM f s [] = Inr s"
| "foldM f s (x # xs) = (case f s x of Inl e \<Rightarrow> Inl e | Inr s' \<Rightarrow> foldM f s' xs)"

section \<open>Strings\<close>

text \<open>
  A Python \<open>str\<close> is modelled as a \<open>string\<close>, one \<open>char\<close> per code point, so the model
  covers the code points below 256. \<open>isspace\<close> lists the ones among them that
  \<open>str.strip()\<close> removes.
\<close>

definition isspace :: "char \<Rightarrow> bool" where
  "isspace c \<longleftrightarrow> c \<in> set [CHR 0x09, CHR 0x0A, CHR 0x0B, CHR 0x0C, CHR 0x0D,
     CHR 0x1C, CHR 0x1D, CHR 0x1E, CHR 0x1F, CHR 0x20, CHR 0x85, CHR 0xA0]"

definition strip :: "string \<Rightarrow> string" where
  "strip s = rev (dropWhile isspace (rev (dropWhile isspace s)))"

definition isdigit :: "char \<Rightarrow> bool" where
  "isdigit c \<longleftrightarrow> c \<in> set ''0123456789''"

definition digit_char :: "nat \<Rightarrow> char" where
  "digit_char d = ''0123456789'' ! d"

text \<open>\<open>"%d" % n\<close> for a natural number; \<open>"%0wd" % n\<close> pads it with zeros to width \<open>w\<close>.\<close>

fun str_nat :: "nat \<Rightarrow> string" where
  "str_nat n = (if n < 10 then [digit_char n] else str_nat (n div 10) @ [digit_char (n mod 10)])"

declare str_nat.simps [simp del]

definition str_int :: "int \<Rightarrow> string" where
  "str_int i = (if i < 0 then CHR ''-'' # str_nat (nat (- i)) else str_nat (nat i))"

definition zero_pad :: "nat \<Rightarrow> nat \<Rightarrow> string" where
  "zero_pad w n = replicate (w - length (str_nat n)) CHR ''0'' @ str_nat n"

section \<open>\<open>float(time)\<close>\<close>

text \<open>
  \<open>float\<close> applied to a \<open>str\<close>. The whitespace it strips is not that of \<open>str.strip()\<close>:
  every non-ASCII whitespace character is first replaced by a space (below 256 these
  are \<open>0x85\<close> and \<open>0xA0\<close>), then the ASCII characters tab, line feed, vertical tab, form
  feed, carriage return and space are stripped at both ends. The separators
  \<open>0x1C\<close> to \<open>0x1F\<close>, which \<open>str.strip()\<close> removes, stay, and make the string invalid.
  An underscore is allowed only between two digits and is then dropped; what is left
  is an optional sign followed by \<open>inf\<close>, \<open>infinity\<close> or \<open>nan\<close> in any case, or by a
  decimal numeral (digits with an optional point, at least one digit, and an optional
  exponent). Anything else raises \<open>ValueError\<close>.

  A finite result is an IEEE 754 binary64 number, \<open>Finite n k\<close> for \<open>n * 2^k\<close>: the
  decimal numeral is rounded to the nearest double, ties to even, and to infinity when
  the rounded value reaches \<open>2^1024\<close>.
\<close>

datatype pyfloat = Finite int int | Infinite | NaN

definition float_space :: "char \<Rightarrow> bool" where
  "float_space c \<longleftrightarrow> c \<in> set [CHR 0x09, CHR 0x0A, CHR 0x0B, CHR 0x0C, CHR 0x0D, CHR 0x20,
     CHR 0x85, CHR 0xA0]"

definition float_strip :: "string \<Rightarrow> string" where
  "float_strip s = rev (dropWhile float_space (rev (dropWhile float_space s)))"

text \<open>Rounding of the quotient \<open>n / d\<close>, \<open>0 < d\<close>, to the nearest integer, ties to even.\<close>

definition round_half_even :: "int \<Rightarrow> int \<Rightarrow> int" where
  "round_half_even n d =
     (let q = n div d; r = n mod d
      in if 2 * r < d then q else if d < 2 * r then q + 1 else if even q then q else q + 1)"

text \<open>
  The number of binary digits of \<open>n\<close>, and with it \<open>\<lfloor>log\<^sub>2 (p / q)\<rfloor>\<close> for positive \<open>p\<close> and
  \<open>q\<close>: the difference of the two bit lengths, or one less.
\<close>

fun bit_length :: "nat \<Rightarrow> nat" where
  "bit_length n = (if n = 0 then 0 else Suc (bit_length (n div 2)))"

declare bit_length.simps [simp del]

definition floor_log2 :: "nat \<Rightarrow> nat \<Rightarrow> int" where
  "floor_log2 p q =
     (let e = int (bit_length p) - int (bit_length q)
      in if (if 0 \<le> e then q * 2 ^ nat e \<le> p else q \<le> p * 2 ^ nat (- e)) then e else e - 1)"

text \<open>
  The double nearest to the rational \<open>p / q\<close>, \<open>0 < q\<close>. Its last binary digit has the
  weight \<open>2^k\<close>, where \<open>k\<close> is \<open>\<lfloor>log\<^sub>2 \<bar>p / q\<bar>\<rfloor> - 52\<close> for a normal number and \<open>- 1074\<close> for a
  subnormal one; the quotient is rounded to a multiple \<open>n\<close> of it.
\<close>

definition round_double :: "int \<Rightarrow> int \<Rightarrow> pyfloat" where
  "round_double p q =
     (if p = 0 then Finite 0 0
      else
        (let k = max (floor_log2 (nat \<bar>p\<bar>) (nat q)) (- 1022) - 52;
             n = (if 0 \<le> k then round_half_even p (q * 2 ^ nat k)
                  else round_half_even (p * 2 ^ nat (- k)) q)
         in if 0 \<le> k \<and> 2 ^ 1024 \<le> \<bar>n\<bar> * 2 ^ nat k then Infinite else Finite n k))"

fun underscores_ok :: "char \<Rightarrow> string \<Rightarrow> bool" where
  "underscores_ok prev [] \<longleftrightarrow> prev \<noteq> CHR ''_''"
| "underscores_ok prev (c # cs) \<longleftrightarrow>
     (if c = CHR ''_'' then isdigit prev else prev = CHR ''_'' \<longrightarrow> isdigit c)
     \<and> underscores_ok c cs"

definition lower :: "string \<Rightarrow> string" where
  "lower s = map (\<lambda>c. case map_of (zip ''ABCDEFGHIJKLMNOPQRSTUVWXYZ''
     ''abcdefghijklmnopqrstuvwxyz'') c of None \<Rightarrow> c | Some l \<Rightarrow> l) s"

definition nat_of_digits :: "string \<Rightarrow> nat" where
  "nat_of_digits ds = foldl (\<lambda>a c. 10 * a + (of_char c - 48)) 0 ds"

definition split_sign :: "string \<Rightarrow> int \<times> string" where
  "split_sign s = (case s of
       c # cs \<Rightarrow> if c = CHR ''-'' then (- 1, cs) else if c = CHR ''+'' then (1, cs) else (1, s)
     | [] \<Rightarrow> (1, s))"

text \<open>The exponent part, given what follows the mantissa: absent, or \<open>e\<close>, a sign, digits.\<close>

definition parse_exponent :: "string \<Rightarrow> int option" where
  "parse_exponent s = (case s of
       [] \<Rightarrow> Some 0
     | c # cs \<Rightarrow>
         if c = CHR ''e'' \<or> c = CHR ''E'' then
           (let (sg, ds) = split_sign cs in
            if ds \<noteq> [] \<and> list_all isdigit ds then Some (sg * int (nat_of_digits ds)) else None)
         else None)"

definition parse_decimal :: "string \<Rightarrow> (int \<times> int) option" where
  "parse_decimal s =
     (let ip = takeWhile isdigit s; r1 = dropWhile isdigit s;
          r2 = (case r1 of c # cs \<Rightarrow> if c = CHR ''.'' then cs else r1 | [] \<Rightarrow> r1);
          fp = (if r2 = r1 then [] else takeWhile isdigit r2);
          r3 = (if r2 = r1 then r1 else dropWhile isdigit r2)
      in if ip @ fp = [] then None
         else (case parse_exponent r3 of
                 None \<Rightarrow> None
               | Some ex \<Rightarrow> Some (int (nat_of_digits (ip @ fp)), ex - int (length fp))))"

definition float_of_str :: "string \<Rightarrow> error + pyfloat" where
  "float_of_str time =
     (let s = float_strip time in
      if \<not> underscores_ok (CHR 0x00) s then Inl ValueError
      else
        (let (sg, body) = split_sign (filter (\<lambda>c. c \<noteq> CHR ''_'') s) in
         if lower body = ''inf'' \<or> lower body = ''infinity'' then Inr Infinite
         else if lower body = ''nan'' then Inr NaN
         else (case parse_decimal body of
                 None \<Rightarrow> Inl ValueError
               | Some (m, e) \<Rightarrow>
                   Inr (if 0 \<le> e then round_double (sg * m * 10 ^ nat e) 1
                        else round_double (sg * m) (10 ^ nat (- e))))))"

section \<open>\<open>datetime.timedelta\<close>\<close>

text \<open>
  A \<open>timedelta\<close> is normalised to days, seconds in \<open>0..86399\<close> and microseconds in
  \<open>0..999999\<close>; only the days carry a sign. \<open>timedelta(seconds=x)\<close> raises
  \<open>OverflowError\<close> when the days leave \<open>-999999999..999999999\<close> or \<open>x\<close> is infinite,
  \<open>ValueError\<close> when \<open>x\<close> is not a number.
\<close>

record timedelta =
  days :: int
  seconds :: nat
  microseconds :: nat

text \<open>
  The microseconds of \<open>timedelta(seconds=x)\<close> for the double \<open>x = n * 2^k\<close>. The whole
  seconds of \<open>x\<close> (truncated towards zero) are converted exactly. The fraction that is
  left is multiplied by \<open>10^6\<close> in floating point, so the product is rounded to a double
  (it is below \<open>10^6\<close> in magnitude, hence finite), and the sum of the two is rounded to
  a whole number of microseconds, ties to even.
\<close>

definition to_microseconds :: "int \<Rightarrow> int \<Rightarrow> int" where
  "to_microseconds n k =
     (if 0 \<le> k then n * 2 ^ nat k * 1000000
      else
        (let d = 2 ^ nat (- k); x = sgn n * (\<bar>n\<bar> div d); r = n - x * d
         in if r = 0 then x * 1000000
            else (case round_double (1000000 * r) d of
                    Finite n' k' \<Rightarrow>
                      if 0 \<le> k' then x * 1000000 + n' * 2 ^ nat k'
                      else round_half_even (x * 1000000 * 2 ^ nat (- k') + n') (2 ^ nat (- k'))
                  | _ \<Rightarrow> x * 1000000)))"

definition normalize :: "int \<Rightarrow> timedelta" where
  "normalize us =
     \<lparr>days = us div 1000000 div 86400,
      seconds = nat (us div 1000000 mod 86400),
      microseconds = nat (us mod 1000000)\<rparr>"

definition timedelta_of_seconds :: "pyfloat \<Rightarrow> error + timedelta" where
  "timedelta_of_seconds x = (case x of
       NaN \<Rightarrow> Inl ValueError
     | Infinite \<Rightarrow> Inl OverflowError
     | Finite n k \<Rightarrow>
         (let td = normalize (to_microseconds n k)
          in if 999999999 < \<bar>days td\<bar> then Inl OverflowError else Inr td))"

text \<open>
  \<open>str(timedelta)\<close>: \<open>H:MM:SS\<close>, with \<open>"D day, "\<close> or \<open>"D days, "\<close> in front when the days
  are not zero and \<open>.ffffff\<close> behind when the microseconds are not zero.
\<close>

definition str_timedelta :: "timedelta \<Rightarrow> string" where
  "str_timedelta td =
     (let mm = seconds td div 60; ss = seconds td mod 60;
          hh = mm div 60; mm' = mm mod 60;
          s = str_nat hh @ '':'' @ zero_pad 2 mm' @ '':'' @ zero_pad 2 ss;
          s1 = (if days td \<noteq> 0
                then str_int (days td) @ '' day'' @ (if \<bar>days td\<bar> \<noteq> 1 then ''s'' else '''') @ '', '' @ s
                else s)
      in if microseconds td \<noteq> 0 then s1 @ ''.'' @ zero_pad 6 (microseconds td) else s1)"

section \<open>\<open>format_time\<close> and \<open>generate_timestamp\<close>\<close>

definition pad_time :: "string \<Rightarrow> string" where
  "pad_time time =
     (if CHR ''.'' \<in> set time then time @ replicate (12 - length time) CHR ''0''
      else time @ ''.000'')"

definition format_time :: "string \<Rightarrow> error + string" where
  "format_time time = (case float_of_str time of
       Inl e \<Rightarrow> Inl e
     | Inr x \<Rightarrow> (case timedelta_of_seconds x of
         Inl e \<Rightarrow> Inl e
       | Inr td \<Rightarrow> Inr (pad_time (CHR ''0'' # take 11 (str_timedelta td)))))"

definition generate_timestamp :: "string \<Rightarrow> string \<Rightarrow> error + string" where
  "generate_timestamp start_time end_time = (case format_time start_time of
       Inl e \<Rightarrow> Inl e
     | Inr a \<Rightarrow> (case format_time end_time of
         Inl e \<Rightarrow> Inl e
       | Inr b \<Rightarrow> Inr (a @ '' --> '' @ b)))"

section \<open>The document tree\<close>

text \<open>
  An \<open>xml.etree.ElementTree.Element\<close>, with the fields \<open>convert\<close> reads: the tag, the
  attribute dictionary, the text that follows the element's end tag (\<open>None\<close> when there
  is none) and the children in document order.
\<close>

datatype element =
  Element (tag: string) (attrib: "(string \<times> string) list") (tail: "string option")
    (children: "element list")

text \<open>\<open>e.iter()\<close>: the element itself and everything below it, depth first.\<close>

fun iter_all :: "element \<Rightarrow> element list" where
  "iter_all (Element t a tx cs) = Element t a tx cs # concat (map iter_all cs)"

text \<open>\<open>e.iter(tag)\<close>: the same, restricted to one tag when one is given.\<close>

definition iter_elem :: "string option \<Rightarrow> element \<Rightarrow> element list" where
  "iter_elem name e = (case name of
       None \<Rightarrow> iter_all e
     | Some t \<Rightarrow> filter (\<lambda>x. tag x = t) (iter_all e))"

text \<open>\<open>e.find(tag)\<close>: the first child with that tag, or \<open>None\<close>.\<close>

definition find_child :: "string \<Rightarrow> element \<Rightarrow> element option" where
  "find_child name e = List.find (\<lambda>x. tag x = name) (children e)"

text \<open>\<open>d[k]\<close> and \<open>d.get(k, default)\<close> on a dictionary given by its items.\<close>

definition subscript :: "(string \<times> string) list \<Rightarrow> string \<Rightarrow> error + string" where
  "subscript d k = (case map_of d k of None \<Rightarrow> Inl KeyError | Some v \<Rightarrow> Inr v)"

definition get_default :: "(string \<times> string) list \<Rightarrow> string \<Rightarrow> string \<Rightarrow> string" where
  "get_default d k dflt = (case map_of d k of None \<Rightarrow> dflt | Some v \<Rightarrow> v)"

text \<open>Sequencing of two steps that may raise.\<close>

definition and_then :: "error + 'a \<Rightarrow> ('a \<Rightarrow> error + 'b) \<Rightarrow> error + 'b" where
  "and_then m f = (case m of Inl e \<Rightarrow> Inl e | Inr x \<Rightarrow> f x)"

section \<open>\<open>convert\<close>\<close>

definition noise :: "(string \<times> string) list" where
  "noise =
     [(''COUGH'', '' <i>(coughs)</i> ''),
      (''EE-HESITATION'', '' <i>(hesitates)</i> ''),
      (''LAUGHTER'', '' <i>(laughs)</i> ''),
      (''LIP_SMACK'', '' <i>(smacks lips)</i> ''),
      (''LOUD_BREATH'', '' <i>(breaths loudly)</i> ''),
      (''NOISE'', '' <i>(noise)</i> ''),
      (''SILENCE'', '' <i>(silence)</i> ''),
      (''UH-HUH'', '' <i>(uh-huh)</i> ''),
      (''UNINTELLIGIBLE'', '' <i>(unintelligible)</i> '')]"

text \<open>
  A cue as it is written out: the two time codes handed to \<open>generate_timestamp\<close>, the
  prefix \<open>add_speakers * speaker_prefix\<close> and the stripped text.
\<close>

record cue =
  cue_start :: string
  cue_end :: string
  cue_prefix :: string
  cue_text :: string

text \<open>
  The local variables of \<open>convert\<close> that the loops update (\<open>turn_text\<close> is the
  variable \<open>text\<close>). \<open>cues\<close> is not a variable of
  the program: it is a history of the cues written so far, kept beside \<open>vtt_lines\<close> so
  that properties of the cues can be stated on the time codes as the document gives
  them. Nothing reads it.
\<close>

record walk_state =
  start_time :: string
  end_time :: string
  turn_text :: string
  vtt_lines :: "string list"
  cues :: "cue list"

text \<open>
  The three \<open>vtt_lines.append\<close> of lines 99 to 101 and 112 to 114: the time stamp from
  \<open>start_time\<close> to \<open>stop\<close>, the text line, an empty line.
\<close>

definition emit :: "bool \<Rightarrow> string \<Rightarrow> string \<Rightarrow> walk_state \<Rightarrow> error + walk_state" where
  "emit add_speakers speaker_prefix stop st =
     and_then (generate_timestamp (start_time st) stop) (\<lambda>stamp.
       let pre = (if add_speakers then speaker_prefix else [])
       in Inr (st\<lparr>vtt_lines := vtt_lines st @ [stamp, pre @ strip (turn_text st), []],
                  cues := cues st @ [\<lparr>cue_start = start_time st, cue_end = stop,
                                       cue_prefix = pre, cue_text = strip (turn_text st)\<rparr>]\<rparr>))"

text \<open>\<open>text = text + annotation.tail.strip()\<close>, which raises when the tail is \<open>None\<close>.\<close>

definition append_tail :: "element \<Rightarrow> walk_state \<Rightarrow> error + walk_state" where
  "append_tail annotation st = (case tail annotation of
       None \<Rightarrow> Inl AttributeError
     | Some tx \<Rightarrow> Inr (st\<lparr>turn_text := turn_text st @ strip tx\<rparr>))"

text \<open>The body of the loop over \<open>turn.iter()\<close>, lines 92 to 109.\<close>

definition annotation_step ::
  "bool \<Rightarrow> bool \<Rightarrow> string \<Rightarrow> walk_state \<Rightarrow> element \<Rightarrow> error + walk_state" where
  "annotation_step add_speakers preserve_noise speaker_prefix st annotation =
     (if tag annotation = ''Turn'' then Inr st
      else if tag annotation = ''Sync'' then
        and_then (subscript (attrib annotation) ''time'') (\<lambda>t.
        let st0 = st\<lparr>end_time := t\<rparr> in
        and_then (if turn_text st0 \<noteq> []
                  then and_then (emit add_speakers speaker_prefix (end_time st0) st0)
                         (\<lambda>st1. Inr (st1\<lparr>turn_text := []\<rparr>))
                  else Inr st0) (\<lambda>st2.
        and_then (append_tail annotation st2) (\<lambda>st3.
        Inr (st3\<lparr>start_time := end_time st3\<rparr>))))
      else if tag annotation = ''Event'' then
        and_then (if preserve_noise
                  then and_then (subscript (attrib annotation) ''desc'') (\<lambda>d.
                       and_then (subscript noise d) (\<lambda>m.
                       Inr (st\<lparr>turn_text := turn_text st @ m\<rparr>)))
                  else Inr st) (\<lambda>st1.
        append_tail annotation st1)
      else Inr st)"

text \<open>The body of the loop over the turns, lines 86 to 114.\<close>

definition turn_step ::
  "bool \<Rightarrow> bool \<Rightarrow> (string \<rightharpoonup> string) \<Rightarrow> walk_state \<Rightarrow> element \<Rightarrow> error + walk_state" where
  "turn_step add_speakers preserve_noise speakers st turn =
     (let speaker = (case speakers (get_default (attrib turn) ''speaker'' []) of
                       None \<Rightarrow> [] | Some n \<Rightarrow> n);
          speaker_prefix = ''<v '' @ speaker @ ''>''
      in and_then (subscript (attrib turn) ''startTime'') (\<lambda>t0.
         and_then (foldM (annotation_step add_speakers preserve_noise speaker_prefix)
                     (st\<lparr>start_time := t0, end_time := [], turn_text := []\<rparr>)
                     (iter_elem None turn)) (\<lambda>st1.
         if turn_text st1 \<noteq> []
         then and_then (subscript (attrib turn) ''endTime'') (\<lambda>t1.
                emit add_speakers speaker_prefix t1 st1)
         else Inr st1)))"

text \<open>The dictionary comprehension of lines 72 to 75: a later speaker with the same id wins.\<close>

definition speaker_step ::
  "(string \<rightharpoonup> string) \<Rightarrow> element \<Rightarrow> error + (string \<rightharpoonup> string)" where
  "speaker_step d speaker =
     and_then (subscript (attrib speaker) ''id'') (\<lambda>k.
     and_then (subscript (attrib speaker) ''name'') (\<lambda>v.
     Inr (d(k \<mapsto> v))))"

text \<open>\<open>speakers\<close>: \<open>root.find("Speakers")\<close> and the comprehension over its \<open>Speaker\<close> elements.\<close>

definition speakers_of :: "element \<Rightarrow> error + (string \<rightharpoonup> string)" where
  "speakers_of root = (case find_child ''Speakers'' root of
       None \<Rightarrow> Inl AttributeError
     | Some sp \<Rightarrow> foldM speaker_step Map.empty (iter_elem (Some ''Speaker'') sp))"

text \<open>Lines 78 to 81; the language is \<open>None\<close> when the command line gives none.\<close>

definition header :: "string option \<Rightarrow> string list" where
  "header language =
     [''WEBVTT''] @
     (case language of
        None \<Rightarrow> []
      | Some l \<Rightarrow> if l \<noteq> [] then [''Language: '' @ l] else []) @
     [[]]"

text \<open>
  \<open>convert\<close> from the parsed tree on (opening and parsing the file are the library's):
  the state after the last turn.
\<close>

definition convert_state ::
  "element \<Rightarrow> string option \<Rightarrow> bool \<Rightarrow> bool \<Rightarrow> error + walk_state" where
  "convert_state root language add_speakers preserve_noise =
     and_then (speakers_of root) (\<lambda>speakers.
     and_then (case find_child ''Episode'' root of
                 None \<Rightarrow> Inl AttributeError | Some e \<Rightarrow> Inr e) (\<lambda>episode.
     foldM (\<lambda>st section.
              foldM (turn_step add_speakers preserve_noise speakers) st
                (iter_elem (Some ''Turn'') section))
       \<lparr>start_time = [], end_time = [], turn_text = [],
          vtt_lines = header language, cues = []\<rparr>
       (iter_elem (Some ''Section'') episode)))"

text \<open>The lines of the output, and the output: the lines joined by newlines.\<close>

definition convert_lines ::
  "element \<Rightarrow> string option \<Rightarrow> bool \<Rightarrow> bool \<Rightarrow> error + string list" where
  "convert_lines root language add_speakers preserve_noise =
     and_then (convert_state root language add_speakers preserve_noise)
       (\<lambda>st. Inr (vtt_lines st))"

fun join_lines :: "string list \<Rightarrow> string" where
  "join_lines [] = []"
| "join_lines [l] = l"
| "join_lines (l # m # ls) = l @ [CHR 0x0A] @ join_lines (m # ls)"

definition convert :: "element \<Rightarrow> string option \<Rightarrow> bool \<Rightarrow> bool \<Rightarrow> error + string" where
  "convert root language add_speakers preserve_noise =
     and_then (convert_lines root language add_speakers preserve_noise)
       (\<lambda>ls. Inr (join_lines ls))"

section \<open>Documents used as examples\<close>

text \<open>
  One speaker, one section, one turn from 0 to 5 whose only annotation is a \<open>Sync\<close> at 2
  followed by the text \<open>Hello there\<close>.
\<close>

definition hello_turn :: element where
  "hello_turn =
     Element ''Turn'' [(''speaker'', ''spk1''), (''startTime'', ''0''), (''endTime'', ''5'')] None
       [Element ''Sync'' [(''time'', ''2'')] (Some ''Hello there'') []]"

definition hello_doc :: element where
  "hello_doc =
     Element ''Trans'' [] None
       [Element ''Speakers'' [] None
          [Element ''Speaker'' [(''id'', ''spk1''), (''name'', ''Alice'')] None []],
        Element ''Episode'' [] None [Element ''Section'' [] None [hello_turn]]]"

section \<open>Notions used in the statements\<close>

text \<open>What follows the first point of a rendered time: its fractional digits.\<close>

definition fraction_part :: "string \<Rightarrow> string" where
  "fraction_part s = drop 1 (dropWhile (\<lambda>c. c \<noteq> CHR ''.'') s)"

text \<open>The rendering of a duration up to the point: the days, if any, and \<open>H:MM:SS\<close>.\<close>

definition whole_part :: "timedelta \<Rightarrow> string" where
  "whole_part td =
     (if days td \<noteq> 0
      then str_int (days td) @ '' day'' @ (if \<bar>days td\<bar> \<noteq> 1 then ''s'' else '''') @ '', ''
      else []) @
     str_nat (seconds td div 60 div 60) @ '':'' @ zero_pad 2 (seconds td div 60 mod 60) @ '':'' @
     zero_pad 2 (seconds td mod 60)"

text \<open>
  The microsecond counts a \<open>timedelta\<close> can hold: from \<open>-999999999\<close> days up to, but not
  including, \<open>1000000000\<close> days.
\<close>

definition representable :: "int \<Rightarrow> bool" where
  "representable us \<longleftrightarrow> - 86399999913600000000 \<le> us \<and> us < 86400000000000000000"

text \<open>The turns in the order in which \<open>convert\<close> processes them.\<close>

definition walked_turns :: "element \<Rightarrow> element list" where
  "walked_turns root = (case find_child ''Episode'' root of
       None \<Rightarrow> []
     | Some episode \<Rightarrow>
         concat (map (iter_elem (Some ''Turn'')) (iter_elem (Some ''Section'') episode)))"

text \<open>The state in which the loop over the turns starts.\<close>

definition initial_state :: "string option \<Rightarrow> walk_state" where
  "initial_state language =
     \<lparr>start_time = [], end_time = [], turn_text = [], vtt_lines = header language, cues = []\<rparr>"

text \<open>The three lines of a cue in the output.\<close>

definition cue_block :: "cue \<Rightarrow> string list" where
  "cue_block c =
     [case generate_timestamp (cue_start c) (cue_end c) of Inl e \<Rightarrow> [] | Inr stamp \<Rightarrow> stamp,
      cue_prefix c @ cue_text c, []]"

text \<open>A text is blank when \<open>strip\<close> leaves nothing of it.\<close>

definition blank :: "string \<Rightarrow> bool" where
  "blank s \<longleftrightarrow> strip s = []"

text \<open>The prefix of lines 86 and 87 for a turn.\<close>

definition turn_prefix :: "(string \<rightharpoonup> string) \<Rightarrow> element \<Rightarrow> string" where
  "turn_prefix speakers turn =
     ''<v '' @ (case speakers (get_default (attrib turn) ''speaker'' []) of
                 None \<Rightarrow> [] | Some n \<Rightarrow> n) @ ''>''"

text \<open>The state in which the loop over the annotations of a turn starts.\<close>

definition turn_start :: "walk_state \<Rightarrow> string \<Rightarrow> walk_state" where
  "turn_start st t0 = st\<lparr>start_time := t0, end_time := [], turn_text := []\<rparr>"

text \<open>
  What holds of the cues a turn has written so far, \<open>st0\<close> being the state in which the
  turn started: they were appended to the history and their lines to the output, they
  carry the prefix \<open>p\<close>, their text is not blank, and both time codes were formatted.
  The text gathered for the next cue is empty or not blank.
\<close>

definition turn_inv :: "walk_state \<Rightarrow> string \<Rightarrow> walk_state \<Rightarrow> bool" where
  "turn_inv st0 p st \<longleftrightarrow>
     (\<exists>new. cues st = cues st0 @ new \<and>
        vtt_lines st = vtt_lines st0 @ concat (map cue_block new) \<and>
        (\<forall>c\<in>set new. cue_prefix c = p \<and> \<not> blank (cue_text c) \<and>
           (\<exists>stamp. generate_timestamp (cue_start c) (cue_end c) = Inr stamp))) \<and>
     (turn_text st \<noteq> [] \<longrightarrow> \<not> blank (turn_text st))"

text \<open>
  What holds of the state between two turns: the output is the header followed by the
  lines of the cues written so far, none of which has a blank text or an unformatted
  time code.
\<close>

definition doc_inv :: "string option \<Rightarrow> walk_state \<Rightarrow> bool" where
  "doc_inv language st \<longleftrightarrow>
     vtt_lines st = header language @ concat (map cue_block (cues st)) \<and>
     (\<forall>c\<in>set (cues st). \<not> blank (cue_text c) \<and>
        (\<exists>stamp. generate_timestamp (cue_start c) (cue_end c) = Inr stamp))"

text \<open>
  A turn from 0 to 1 whose \<open>Sync\<close> at 0 is followed by the text \<open>Language: en\<close>.
\<close>

definition language_doc :: element where
  "language_doc =
     Element ''Trans'' [] None
       [Element ''Speakers'' [] None [],
        Element ''Episode'' [] None
          [Element ''Section'' [] None
             [Element ''Turn'' [(''startTime'', ''0''), (''endTime'', ''1'')] None
                [Element ''Sync'' [(''time'', ''0'')] (Some ''Language: en'') []]]]]"

text \<open>
  The time codes of a turn in the order in which the walk reads them: \<open>startTime\<close>, the
  \<open>time\<close> of every \<open>Sync\<close> below the turn, \<open>endTime\<close>.
\<close>

definition sync_time :: "element \<Rightarrow> string list" where
  "sync_time a =
     (if tag a = ''Sync''
      then (case map_of (attrib a) ''time'' of None \<Rightarrow> [] | Some t \<Rightarrow> [t])
      else [])"

definition time_codes :: "element \<Rightarrow> string list" where
  "time_codes turn =
     (case map_of (attrib turn) ''startTime'' of None \<Rightarrow> [] | Some t \<Rightarrow> [t]) @
     concat (map sync_time (iter_all turn)) @
     (case map_of (attrib turn) ''endTime'' of None \<Rightarrow> [] | Some t \<Rightarrow> [t])"

text \<open>
  What a document needs for \<open>convert\<close> to succeed, one kind of exception at a time.
  No \<open>KeyError\<close> from an attribute: every \<open>Speaker\<close> has an \<open>id\<close> and a \<open>name\<close>, every turn
  a \<open>startTime\<close> and an \<open>endTime\<close>, every \<open>Sync\<close> a \<open>time\<close>.
\<close>

definition turn_keys_ok :: "element \<Rightarrow> bool" where
  "turn_keys_ok turn \<longleftrightarrow>
     map_of (attrib turn) ''startTime'' \<noteq> None \<and> map_of (attrib turn) ''endTime'' \<noteq> None \<and>
     (\<forall>a\<in>set (iter_all turn). tag a = ''Sync'' \<longrightarrow> map_of (attrib a) ''time'' \<noteq> None)"

definition keys_ok :: "element \<Rightarrow> bool" where
  "keys_ok root \<longleftrightarrow>
     (\<forall>sp. find_child ''Speakers'' root = Some sp \<longrightarrow>
        (\<forall>s\<in>set (iter_elem (Some ''Speaker'') sp).
           map_of (attrib s) ''id'' \<noteq> None \<and> map_of (attrib s) ''name'' \<noteq> None)) \<and>
     (\<forall>turn\<in>set (walked_turns root). turn_keys_ok turn)"

text \<open>No \<open>KeyError\<close> from the noise table: every \<open>Event\<close> has a \<open>desc\<close> that the table holds.\<close>

definition turn_codes_ok :: "element \<Rightarrow> bool" where
  "turn_codes_ok turn \<longleftrightarrow>
     (\<forall>a\<in>set (iter_all turn). tag a = ''Event'' \<longrightarrow>
        (\<exists>d m. map_of (attrib a) ''desc'' = Some d \<and> map_of noise d = Some m))"

definition codes_ok :: "element \<Rightarrow> bool" where
  "codes_ok root \<longleftrightarrow> (\<forall>turn\<in>set (walked_turns root). turn_codes_ok turn)"

text \<open>No \<open>ValueError\<close> or \<open>OverflowError\<close>: every time code is formatted.\<close>

definition turn_times_ok :: "element \<Rightarrow> bool" where
  "turn_times_ok turn \<longleftrightarrow> (\<forall>t\<in>set (time_codes turn). \<exists>out. format_time t = Inr out)"

definition times_ok :: "element \<Rightarrow> bool" where
  "times_ok root \<longleftrightarrow> (\<forall>turn\<in>set (walked_turns root). turn_times_ok turn)"

text \<open>
  No \<open>AttributeError\<close>: the document has a \<open>Speakers\<close> and an \<open>Episode\<close> element, and every
  \<open>Sync\<close> and \<open>Event\<close> below a turn has a tail.
\<close>

definition turn_tails_ok :: "element \<Rightarrow> bool" where
  "turn_tails_ok turn \<longleftrightarrow>
     (\<forall>a\<in>set (iter_all turn). tag a = ''Sync'' \<or> tag a = ''Event'' \<longrightarrow> tail a \<noteq> None)"

definition tails_ok :: "element \<Rightarrow> bool" where
  "tails_ok root \<longleftrightarrow>
     find_child ''Speakers'' root \<noteq> None \<and> find_child ''Episode'' root \<noteq> None \<and>
     (\<forall>turn\<in>set (walked_turns root). turn_tails_ok turn)"

text \<open>A turn from 0 to 1 whose \<open>Sync\<close> at 0 has no tail: the turn ends right behind it.\<close>

definition no_tail_turn :: element where
  "no_tail_turn =
     Element ''Turn'' [(''startTime'', ''0''), (''endTime'', ''1'')] None
       [Element ''Sync'' [(''time'', ''0'')] None []]"

definition no_tail_doc :: element where
  "no_tail_doc =
     Element ''Trans'' [] None
       [Element ''Speakers'' [] None [],
        Element ''Episode'' [] None [Element ''Section'' [] None [no_tail_turn]]]"

text \<open>
  A turn from 0 to 1 with the text \<open>x\<close> behind its \<open>Sync\<close> and the text \<open>y\<close> behind an
  \<open>Event\<close> whose code, \<open>MUSIC\<close>, the noise table does not hold.
\<close>

definition music_turn :: element where
  "music_turn =
     Element ''Turn'' [(''startTime'', ''0''), (''endTime'', ''1'')] None
       [Element ''Sync'' [(''time'', ''0'')] (Some ''x'') [],
        Element ''Event'' [(''desc'', ''MUSIC'')] (Some ''y'') []]"

definition music_doc :: element where
  "music_doc =
     Element ''Trans'' [] None
       [Element ''Speakers'' [] None [],
        Element ''Episode'' [] None [Element ''Section'' [] None [music_turn]]]"

text \<open>A turn from 0 on with the text \<open>x\<close>, whose \<open>endTime\<close> is not a number.\<close>

definition bad_end_turn :: element where
  "bad_end_turn =
     Element ''Turn'' [(''startTime'', ''0''), (''endTime'', ''abc'')] None
       [Element ''Sync'' [(''time'', ''0'')] (Some ''x'') []]"

definition bad_end_doc :: element where
  "bad_end_doc =
     Element ''Trans'' [] None
       [Element ''Speakers'' [] None [],
        Element ''Episode'' [] None [Element ''Section'' [] None [bad_end_turn]]]"

text \<open>
  A text in which no \<open><\<close> is followed by a \<open>v\<close>, also not by one appended to it later.
\<close>

definition no_open :: "string \<Rightarrow> bool" where
  "no_open s \<longleftrightarrow> \<not> sublist ''<v'' s \<and> (s \<noteq> [] \<longrightarrow> last s \<noteq> CHR ''<'')"

text \<open>No tail of an element below a turn that the walk reaches contains \<open><\<close>.\<close>

definition tails_plain :: "element \<Rightarrow> bool" where
  "tails_plain root \<longleftrightarrow>
     (\<forall>turn\<in>set (walked_turns root). \<forall>a\<in>set (iter_all turn). \<forall>tx.
        tail a = Some tx \<longrightarrow> CHR ''<'' \<notin> set tx)"

text \<open>The language tag, if there is one, contains no \<open><\<close>.\<close>

definition language_plain :: "string option \<Rightarrow> bool" where
  "language_plain language \<longleftrightarrow> (\<forall>l. language = Some l \<longrightarrow> CHR ''<'' \<notin> set l)"

text \<open>What then holds of a state: no line and no gathered text has the marker.\<close>

definition plain_inv :: "walk_state \<Rightarrow> bool" where
  "plain_inv st \<longleftrightarrow> (\<forall>l\<in>set (vtt_lines st). \<not> sublist ''<v '' l) \<and> no_open (turn_text st)"

text \<open>A turn from 0 to 1 whose text is \<open><v Bob>hi\<close>.\<close>

definition marker_doc :: element where
  "marker_doc =
     Element ''Trans'' [] None
       [Element ''Speakers'' [] None [],
        Element ''Episode'' [] None
          [Element ''Section'' [] None
             [Element ''Turn'' [(''startTime'', ''0''), (''endTime'', ''1'')] None
                [Element ''Sync'' [(''time'', ''0'')] (Some ''<v Bob>hi'') []]]]]"

text \<open>The time codes of a document in the order in which the walk reads them.\<close>

definition doc_time_codes :: "element \<Rightarrow> string list" where
  "doc_time_codes root = concat (map time_codes (walked_turns root))"

text \<open>The time codes of the cues written: start and end of each cue in turn.\<close>

definition cue_times :: "cue list \<Rightarrow> string list" where
  "cue_times cs = concat (map (\<lambda>c. [cue_start c, cue_end c]) cs)"

text \<open>Every \<open>Sync\<close> below the turn is followed by text that is not blank.\<close>

definition syncs_have_text :: "element \<Rightarrow> bool" where
  "syncs_have_text turn \<longleftrightarrow>
     (\<forall>a\<in>set (iter_all turn). tag a = ''Sync'' \<longrightarrow> (\<exists>tx. tail a = Some tx \<and> \<not> blank tx))"

text \<open>
  What then holds of the cues \<open>new\<close> a turn has written so far: each ends where the next
  starts, and once there is one, the last ends at \<open>start_time\<close> and text is gathered.
\<close>

definition chain_inv :: "walk_state \<Rightarrow> walk_state \<Rightarrow> bool" where
  "chain_inv st0 st \<longleftrightarrow>
     (\<exists>new. cues st = cues st0 @ new \<and>
        successively (\<lambda>c d. cue_end c = cue_start d) new \<and>
        (new \<noteq> [] \<longrightarrow> cue_end (last new) = start_time st \<and> turn_text st \<noteq> []))"

text \<open>The time code as a number of microseconds, for a time code that is a number.\<close>

definition time_micros :: "string \<Rightarrow> int" where
  "time_micros time = (case float_of_str time of
       Inr (Finite n k) \<Rightarrow> to_microseconds n k
     | _ \<Rightarrow> 0)"

text \<open>
  A turn from 0 to 4 with the text \<open>a\<close> behind the \<open>Sync\<close> at 1, nothing behind the one
  at 2, and the text \<open>b\<close> behind the one at 3.
\<close>

definition gap_turn :: element where
  "gap_turn =
     Element ''Turn'' [(''startTime'', ''0''), (''endTime'', ''4'')] None
       [Element ''Sync'' [(''time'', ''1'')] (Some ''a'') [],
        Element ''Sync'' [(''time'', ''2'')] (Some []) [],
        Element ''Sync'' [(''time'', ''3'')] (Some ''b'') []]"

definition gap_doc :: element where
  "gap_doc =
     Element ''Trans'' [] None
       [Element ''Speakers'' [] None [],
        Element ''Episode'' [] None [Element ''Section'' [] None [gap_turn]]]"

text \<open>A turn from 0 to 3 with the text \<open>a\<close> behind the \<open>Sync\<close> at 1 and \<open>b\<close> behind the one at 2.\<close>

definition chain_turn :: element where
  "chain_turn =
     Element ''Turn'' [(''startTime'', ''0''), (''endTime'', ''3'')] None
       [Element ''Sync'' [(''time'', ''1'')] (Some ''a'') [],
        Element ''Sync'' [(''time'', ''2'')] (Some ''b'') []]"

text \<open>
  A document whose only \<open>Sync\<close> has no tail and stands in the section itself, outside
  every turn.
\<close>

definition stray_doc :: element where
  "stray_doc =
     Element ''Trans'' [] None
       [Element ''Speakers'' [] None [],
        Element ''Episode'' [] None
          [Element ''Section'' [] None [Element ''Sync'' [(''time'', ''0'')] None []]]]"

text \<open>
  A turn with the text \<open>x\<close> behind its first \<open>Sync\<close> and a second \<open>Sync\<close> that has no tail
  and the time code \<open>inf\<close>.
\<close>

definition inf_turn :: element where
  "inf_turn =
     Element ''Turn'' [(''startTime'', ''0''), (''endTime'', ''1'')] None
       [Element ''Sync'' [(''time'', ''0'')] (Some ''x'') [],
        Element ''Sync'' [(''time'', ''inf'')] None []]"

definition inf_doc :: element where
  "inf_doc =
     Element ''Trans'' [] None
       [Element ''Speakers'' [] None [],
        Element ''Episode'' [] None [Element ''Section'' [] None [inf_turn]]]"

section \<open>Evaluation\<close>

text \<open>The defining equations that evaluate the model on a concrete input.\<close>

lemmas float_eval = float_of_str_def float_strip_def float_space_def isdigit_def split_sign_def
  lower_def parse_decimal_def parse_exponent_def nat_of_digits_def round_double_def floor_log2_def
  bit_length.simps round_half_even_def

lemmas walk_eval = convert_def convert_lines_def convert_state_def header_def speaker_step_def
  speakers_of_def turn_step_def annotation_step_def append_tail_def emit_def and_then_def subscript_def
  get_default_def find_child_def iter_elem_def noise_def generate_timestamp_def

text \<open>
  A time code that \<open>float\<close> reads as a finite number within the range of \<open>timedelta\<close> is
  formatted; the rule evaluates \<open>format_time\<close> on a concrete time code.
\<close>

lemma format_time_finite:
  assumes "float_of_str time = Inr (Finite n k)" and "representable (to_microseconds n k)"
  shows "format_time time =
           Inr (pad_time (CHR ''0'' # take 11 (str_timedelta (normalize (to_microseconds n k)))))"
proof -
  define us where "us = to_microseconds n k"
  define d where "d = us div 86400000000"
  define r where "r = us mod 86400000000"
  have "us div 1000000 div 86400 = us div (1000000 * 86400)"
    by (rule zdiv_zmult2_eq [symmetric]) simp
  then have days: "days (normalize us) = d" by (simp add: normalize_def d_def)
  have "us = 86400000000 * d + r" by (simp add: d_def r_def)
  moreover have "0 \<le> r" "r < 86400000000" by (simp_all add: r_def)
  ultimately have "\<not> 999999999 < \<bar>days (normalize us)\<bar>"
    using assms(2) unfolding days representable_def us_def [symmetric] by linarith
  then have "timedelta_of_seconds (Finite n k) = Inr (normalize us)"
    by (simp add: timedelta_of_seconds_def us_def)
  with assms(1) show ?thesis by (simp add: format_time_def us_def)
qed

lemmas format_num = float_eval to_microseconds_def representable_def
  normalize_def str_timedelta_def str_nat.simps digit_char_def str_int_def zero_pad_def
  pad_time_def

lemma format_time_0: "format_time ''0'' = Inr ''00:00:00.000''"
  using format_time_finite [of "''0''" 0 0] by (simp add: format_num)

lemma format_time_1: "format_time ''1'' = Inr ''00:00:01.000''"
  using format_time_finite [of "''1''" 4503599627370496 "- 52"] by (simp add: format_num)

lemma format_time_2: "format_time ''2'' = Inr ''00:00:02.000''"
  using format_time_finite [of "''2''" 4503599627370496 "- 51"] by (simp add: format_num)

lemma format_time_3: "format_time ''3'' = Inr ''00:00:03.000''"
  using format_time_finite [of "''3''" 6755399441055744 "- 51"] by (simp add: format_num)

lemma format_time_4: "format_time ''4'' = Inr ''00:00:04.000''"
  using format_time_finite [of "''4''" 4503599627370496 "- 50"] by (simp add: format_num)

lemma format_time_5: "format_time ''5'' = Inr ''00:00:05.000''"
  using format_time_finite [of "''5''" 5629499534213120 "- 50"] by (simp add: format_num)

lemmas format_time_values = format_time_0 format_time_1 format_time_2 format_time_3
  format_time_4 format_time_5

lemma hello_doc_state:
  "convert_state hello_doc (Some []) False False =
     Inr \<lparr>start_time = ''2'', end_time = ''2'', turn_text = ''Hello there'',
          vtt_lines = [''WEBVTT'', [], ''00:00:02.000 --> 00:00:05.000'', ''Hello there'', []],
          cues = [\<lparr>cue_start = ''2'', cue_end = ''5'', cue_prefix = [],
                   cue_text = ''Hello there''\<rparr>]\<rparr>"
  by (simp add: hello_doc_def hello_turn_def walk_eval format_time_values strip_def isspace_def)

section \<open>Digits and the rendering of a duration\<close>

lemma digit_char_digit: "d < 10 \<Longrightarrow> digit_char d \<in> set ''0123456789''"
proof -
  assume "d < 10"
  then have "d \<in> {0, 1, 2, 3, 4, 5, 6, 7, 8, 9}" by auto
  then show ?thesis by (auto simp: digit_char_def)
qed

lemma str_nat_digits: "set (str_nat n) \<subseteq> set ''0123456789''"
proof (induction n rule: str_nat.induct)
  case (1 n)
  show ?case
  proof (cases "n < 10")
    case True
    then show ?thesis using digit_char_digit [of n] by (subst str_nat.simps) simp
  next
    case False
    have "n mod 10 < 10" by simp
    then have "digit_char (n mod 10) \<in> set ''0123456789''" by (rule digit_char_digit)
    with False 1 show ?thesis by (subst str_nat.simps) simp
  qed
qed

lemma str_nat_nonempty: "str_nat n \<noteq> []"
  by (subst str_nat.simps) simp

lemma str_nat_no_dot: "CHR ''.'' \<notin> set (str_nat n)"
  using str_nat_digits [of n] by auto

lemma zero_pad_no_dot: "CHR ''.'' \<notin> set (zero_pad w n)"
  using str_nat_no_dot by (simp add: zero_pad_def)

lemma zero_pad_length: "w \<le> length (zero_pad w n)"
  by (simp add: zero_pad_def)

lemma str_int_no_dot: "CHR ''.'' \<notin> set (str_int i)"
  using str_nat_no_dot by (simp add: str_int_def)

lemma str_timedelta_split:
  "str_timedelta td =
     whole_part td @ (if microseconds td \<noteq> 0 then ''.'' @ zero_pad 6 (microseconds td) else [])"
  by (simp add: str_timedelta_def whole_part_def Let_def)

lemma whole_part_no_dot: "CHR ''.'' \<notin> set (whole_part td)"
  by (simp add: whole_part_def str_int_no_dot str_nat_no_dot zero_pad_no_dot)

lemma whole_part_length: "7 \<le> length (whole_part td)"
proof -
  have "1 \<le> length (str_nat (seconds td div 60 div 60))"
    using str_nat_nonempty [of "seconds td div 60 div 60"] by (simp add: Suc_le_eq)
  moreover have "2 \<le> length (zero_pad 2 (seconds td div 60 mod 60))" by (rule zero_pad_length)
  moreover have "2 \<le> length (zero_pad 2 (seconds td mod 60))" by (rule zero_pad_length)
  ultimately show ?thesis by (simp add: whole_part_def)
qed

lemma fraction_part_after_dot:
  "CHR ''.'' \<notin> set a \<Longrightarrow> fraction_part (a @ CHR ''.'' # r) = r"
proof -
  assume "CHR ''.'' \<notin> set a"
  then have "dropWhile (\<lambda>c. c \<noteq> CHR ''.'') (a @ CHR ''.'' # r)
               = dropWhile (\<lambda>c. c \<noteq> CHR ''.'') (CHR ''.'' # r)"
    by (intro dropWhile_append2) auto
  then show ?thesis by (simp add: fraction_part_def)
qed

text \<open>
  The slice \<open>[:11]\<close> leaves room for at most three characters behind a point: the point
  stands behind at least seven others, and the padding fills up to twelve.
\<close>

lemma fraction_part_pad_time:
  assumes "CHR ''.'' \<notin> set b" and "7 \<le> length b"
  shows "length (fraction_part (pad_time (CHR ''0'' # take 11 (b @ f)))) \<le> 3"
proof (cases "CHR ''.'' \<in> set (CHR ''0'' # take 11 (b @ f))")
  case False
  then have "pad_time (CHR ''0'' # take 11 (b @ f))
               = (CHR ''0'' # take 11 (b @ f)) @ CHR ''.'' # ''000''"
    by (simp add: pad_time_def)
  then show ?thesis
    using False fraction_part_after_dot [of "CHR ''0'' # take 11 (b @ f)" "''000''"] by simp
next
  case True
  with assms(1) have "CHR ''.'' \<in> set (take (11 - length b) f)"
    by (auto dest: in_set_takeD)
  then obtain u v where uv: "take (11 - length b) f = u @ CHR ''.'' # v" "CHR ''.'' \<notin> set u"
    by (meson split_list_first)
  let ?t = "CHR ''0'' # take 11 (b @ f)"
  have t: "?t = (CHR ''0'' # take 11 b @ u) @ CHR ''.'' # v" using uv by simp
  have nodot: "CHR ''.'' \<notin> set (CHR ''0'' # take 11 b @ u)"
    using assms(1) uv(2) by (auto dest: in_set_takeD)
  have "pad_time ?t
          = (CHR ''0'' # take 11 b @ u) @ CHR ''.'' # (v @ replicate (12 - length ?t) CHR ''0'')"
    using True t by (simp add: pad_time_def)
  then have "fraction_part (pad_time ?t) = v @ replicate (12 - length ?t) CHR ''0''"
    using fraction_part_after_dot [OF nodot] by simp
  then have "length (fraction_part (pad_time ?t)) = length v + (12 - length ?t)"
    by simp
  moreover have "min (length f) (11 - length b) = Suc (length u + length v)"
    using arg_cong [OF uv(1), of length] by simp
  moreover have "length ?t = Suc (min (length b + length f) 11)" by simp
  ultimately show ?thesis using assms(2) by arith
qed

lemma format_time_pad_time:
  "format_time time = Inr out \<Longrightarrow>
     \<exists>td. out = pad_time (CHR ''0'' # take 11 (str_timedelta td))"
  by (auto simp: format_time_def split: sum.splits)

lemma format_time_fraction_le:
  assumes "format_time time = Inr out"
  shows "length (fraction_part out) \<le> 3"
proof -
  from assms obtain td where "out = pad_time (CHR ''0'' # take 11 (str_timedelta td))"
    using format_time_pad_time by blast
  then show ?thesis
    using fraction_part_pad_time [OF whole_part_no_dot whole_part_length, of td]
    by (simp add: str_timedelta_split)
qed

lemma format_time_1_0625: "format_time ''1.0625'' = Inr ''00:00:01.062''"
  using format_time_finite [of "''1.0625''" 4785074604081152 "- 52"] by (simp add: format_num)

section \<open>Sequencing and loops\<close>

lemma and_then_Inl [simp]: "and_then (Inl e) f = Inl e"
  by (simp add: and_then_def)

lemma and_then_Inr [simp]: "and_then (Inr x) f = f x"
  by (simp add: and_then_def)

lemma and_then_eq_Inr: "and_then m f = Inr y \<longleftrightarrow> (\<exists>x. m = Inr x \<and> f x = Inr y)"
  by (cases m) simp_all

lemma and_then_eq_Inl: "and_then m f = Inl e \<longleftrightarrow> m = Inl e \<or> (\<exists>x. m = Inr x \<and> f x = Inl e)"
  by (cases m) simp_all

lemma foldM_append: "foldM f s (xs @ ys) = and_then (foldM f s xs) (\<lambda>s'. foldM f s' ys)"
  by (induction xs arbitrary: s) (auto split: sum.splits)

lemma foldM_concat_map:
  "foldM (\<lambda>s x. foldM f s (h x)) s xs = foldM f s (concat (map h xs))"
proof (induction xs arbitrary: s)
  case Nil
  show ?case by simp
next
  case (Cons x xs)
  show ?case by (cases "foldM f s (h x)") (simp_all add: foldM_append Cons.IH)
qed

lemma foldM_Cons_Inr:
  "foldM f s (x # xs) = Inr s' \<longleftrightarrow> (\<exists>s1. f s x = Inr s1 \<and> foldM f s1 xs = Inr s')"
  by (cases "f s x") simp_all

text \<open>A property that every successful step preserves holds after a successful loop.\<close>

lemma foldM_invariant:
  assumes "foldM f s xs = Inr s'" and "I s"
    and "\<And>s x s'. I s \<Longrightarrow> x \<in> set xs \<Longrightarrow> f s x = Inr s' \<Longrightarrow> I s'"
  shows "I s'"
  using assms
proof (induction xs arbitrary: s)
  case Nil
  then show ?case by simp
next
  case (Cons x xs)
  from Cons.prems(1) obtain s1 where s1: "f s x = Inr s1" "foldM f s1 xs = Inr s'"
    unfolding foldM_Cons_Inr by blast
  have "I s1" by (rule Cons.prems(3) [of s x s1]) (use Cons.prems(2) s1(1) in simp_all)
  moreover have "\<And>s y s'. I s \<Longrightarrow> y \<in> set xs \<Longrightarrow> f s y = Inr s' \<Longrightarrow> I s'"
    by (rule Cons.prems(3)) simp_all
  ultimately show ?case using s1(2) by (rule Cons.IH [rotated])
qed

text \<open>A loop that succeeds has run every step with success.\<close>

lemma foldM_step_succeeds:
  assumes "foldM f s xs = Inr s'" and "x \<in> set xs" and "I s"
    and "\<And>s x s'. I s \<Longrightarrow> x \<in> set xs \<Longrightarrow> f s x = Inr s' \<Longrightarrow> I s'"
  shows "\<exists>s1 s2. I s1 \<and> f s1 x = Inr s2"
  using assms
proof (induction xs arbitrary: s)
  case Nil
  then show ?case by simp
next
  case (Cons y ys)
  from Cons.prems(1) obtain s1 where s1: "f s y = Inr s1" "foldM f s1 ys = Inr s'"
    unfolding foldM_Cons_Inr by blast
  show ?case
  proof (cases "x = y")
    case True
    then show ?thesis using s1(1) Cons.prems(3) by blast
  next
    case False
    then have x: "x \<in> set ys" using Cons.prems(2) by simp
    have "I s1" by (rule Cons.prems(4) [of s y s1]) (use Cons.prems(3) s1(1) in simp_all)
    moreover have "\<And>s z s'. I s \<Longrightarrow> z \<in> set ys \<Longrightarrow> f s z = Inr s' \<Longrightarrow> I s'"
      by (rule Cons.prems(4)) simp_all
    ultimately show ?thesis using s1(2) x by (rule Cons.IH [rotated 2])
  qed
qed

text \<open>A loop that fails has failed in one of its steps, from a state the loop reaches.\<close>

lemma foldM_failure:
  assumes "foldM f s xs = Inl e" and "I s"
    and "\<And>s x s'. I s \<Longrightarrow> x \<in> set xs \<Longrightarrow> f s x = Inr s' \<Longrightarrow> I s'"
  shows "\<exists>s1 x. x \<in> set xs \<and> I s1 \<and> f s1 x = Inl e"
  using assms
proof (induction xs arbitrary: s)
  case Nil
  then show ?case by simp
next
  case (Cons y ys)
  show ?case
  proof (cases "f s y")
    case (Inl e')
    then have "e' = e" using Cons.prems(1) by simp
    then have "y \<in> set (y # ys) \<and> I s \<and> f s y = Inl e" using Inl Cons.prems(2) by simp
    then show ?thesis by blast
  next
    case (Inr s1)
    then have fail: "foldM f s1 ys = Inl e" using Cons.prems(1) by simp
    have "I s1" by (rule Cons.prems(3) [of s y s1]) (use Cons.prems(2) Inr in simp_all)
    moreover have "\<And>s z s'. I s \<Longrightarrow> z \<in> set ys \<Longrightarrow> f s z = Inr s' \<Longrightarrow> I s'"
      by (rule Cons.prems(3)) simp_all
    ultimately have "\<exists>s2 x. x \<in> set ys \<and> I s2 \<and> f s2 x = Inl e"
      using fail by (rule Cons.IH [rotated])
    then obtain s2 x where "x \<in> set ys" "I s2" "f s2 x = Inl e" by blast
    then have "x \<in> set (y # ys) \<and> I s2 \<and> f s2 x = Inl e" by simp
    then show ?thesis by blast
  qed
qed

text \<open>A loop whose steps all succeed from the states it reaches succeeds.\<close>

lemma foldM_succeeds:
  assumes "I s"
    and "\<And>s x. I s \<Longrightarrow> x \<in> set xs \<Longrightarrow> \<exists>s'. f s x = Inr s' \<and> I s'"
  shows "\<exists>s'. foldM f s xs = Inr s' \<and> I s'"
  using assms
proof (induction xs arbitrary: s)
  case Nil
  then show ?case by simp
next
  case (Cons y ys)
  have "\<exists>s'. f s y = Inr s' \<and> I s'" by (rule Cons.prems(2)) (use Cons.prems(1) in simp_all)
  then obtain s1 where s1: "f s y = Inr s1" "I s1" by blast
  have "\<And>s z. I s \<Longrightarrow> z \<in> set ys \<Longrightarrow> \<exists>s'. f s z = Inr s' \<and> I s'"
    by (rule Cons.prems(2)) simp_all
  with s1(2) have "\<exists>s'. foldM f s1 ys = Inr s' \<and> I s'" by (rule Cons.IH)
  then show ?case using s1(1) by simp
qed

section \<open>The loop over the turns\<close>

lemma convert_state_turns:
  "convert_state root language add_speakers preserve_noise =
     and_then (speakers_of root) (\<lambda>speakers.
       case find_child ''Episode'' root of
         None \<Rightarrow> Inl AttributeError
       | Some episode \<Rightarrow>
           foldM (turn_step add_speakers preserve_noise speakers) (initial_state language)
             (walked_turns root))"
proof (cases "find_child ''Episode'' root")
  case None
  then show ?thesis by (simp add: convert_state_def)
next
  case (Some episode)
  then show ?thesis
    by (simp add: convert_state_def walked_turns_def initial_state_def foldM_concat_map)
qed

lemma convert_state_Inr:
  "convert_state root language add_speakers preserve_noise = Inr st \<longleftrightarrow>
     (\<exists>speakers. speakers_of root = Inr speakers \<and> find_child ''Episode'' root \<noteq> None \<and>
        foldM (turn_step add_speakers preserve_noise speakers) (initial_state language)
          (walked_turns root) = Inr st)"
proof (cases "find_child ''Episode'' root")
  case None
  then show ?thesis by (simp add: convert_state_turns and_then_eq_Inr)
next
  case (Some episode)
  then show ?thesis by (simp add: convert_state_turns and_then_eq_Inr)
qed

section \<open>One turn\<close>

lemma subscript_Inr: "subscript d k = Inr v \<longleftrightarrow> map_of d k = Some v"
  by (simp add: subscript_def split: option.splits)

lemma subscript_Inl: "subscript d k = Inl e \<longleftrightarrow> map_of d k = None \<and> e = KeyError"
  by (auto simp: subscript_def split: option.splits)

lemma emit_Inr:
  "emit add_speakers pre stop st = Inr st' \<longleftrightarrow>
     (\<exists>stamp. generate_timestamp (start_time st) stop = Inr stamp \<and>
        st' = st\<lparr>vtt_lines := vtt_lines st @
                     [stamp, (if add_speakers then pre else []) @ strip (turn_text st), []],
                  cues := cues st @
                     [\<lparr>cue_start = start_time st, cue_end = stop,
                       cue_prefix = (if add_speakers then pre else []),
                       cue_text = strip (turn_text st)\<rparr>]\<rparr>)"
  by (auto simp: emit_def and_then_eq_Inr Let_def)

lemma emit_Inl:
  "emit add_speakers pre stop st = Inl e \<longleftrightarrow> generate_timestamp (start_time st) stop = Inl e"
  by (auto simp: emit_def and_then_eq_Inl Let_def)

lemma append_tail_Inr:
  "append_tail a st = Inr st' \<longleftrightarrow>
     (\<exists>tx. tail a = Some tx \<and> st' = st\<lparr>turn_text := turn_text st @ strip tx\<rparr>)"
  by (auto simp: append_tail_def split: option.splits)

lemma append_tail_Inl:
  "append_tail a st = Inl e \<longleftrightarrow> tail a = None \<and> e = AttributeError"
  by (auto simp: append_tail_def split: option.splits)

lemma turn_step_unfold:
  "turn_step add_speakers preserve_noise speakers st turn =
     and_then (subscript (attrib turn) ''startTime'') (\<lambda>t0.
     and_then (foldM (annotation_step add_speakers preserve_noise (turn_prefix speakers turn))
                 (turn_start st t0) (iter_all turn)) (\<lambda>st1.
     if turn_text st1 \<noteq> []
     then and_then (subscript (attrib turn) ''endTime'') (\<lambda>t1.
            emit add_speakers (turn_prefix speakers turn) t1 st1)
     else Inr st1))"
  unfolding turn_step_def turn_prefix_def turn_start_def iter_elem_def Let_def by simp

text \<open>What a \<open>Sync\<close> does: it writes a cue if there is text, and starts a new one.\<close>

lemma annotation_step_Sync:
  assumes "tag a = ''Sync''"
  shows "annotation_step sp nz pre st a = Inr st' \<longleftrightarrow>
     (\<exists>t tx. map_of (attrib a) ''time'' = Some t \<and> tail a = Some tx \<and>
        (if turn_text st = []
         then st' = st\<lparr>end_time := t, turn_text := strip tx, start_time := t\<rparr>
         else \<exists>st1. emit sp pre t (st\<lparr>end_time := t\<rparr>) = Inr st1 \<and>
                st' = st1\<lparr>turn_text := strip tx, start_time := t\<rparr>))"
proof (cases "turn_text st = []")
  case True
  then show ?thesis
    using assms
    by (auto simp: annotation_step_def and_then_eq_Inr subscript_Inr append_tail_Inr Let_def)
next
  case False
  then show ?thesis
    using assms
    by (auto simp: annotation_step_def and_then_eq_Inr subscript_Inr append_tail_Inr Let_def
          emit_Inr)
qed

lemma annotation_step_Event:
  assumes "tag a = ''Event''"
  shows "annotation_step sp nz pre st a = Inr st' \<longleftrightarrow>
     (\<exists>tx. tail a = Some tx \<and>
        (if nz
         then \<exists>d m. map_of (attrib a) ''desc'' = Some d \<and> map_of noise d = Some m \<and>
                st' = st\<lparr>turn_text := turn_text st @ m @ strip tx\<rparr>
         else st' = st\<lparr>turn_text := turn_text st @ strip tx\<rparr>))"
  using assms
  by (auto simp: annotation_step_def and_then_eq_Inr subscript_Inr append_tail_Inr)

lemma annotation_step_other:
  assumes "tag a \<noteq> ''Sync''" and "tag a \<noteq> ''Event''"
  shows "annotation_step sp nz pre st a = Inr st"
  using assms by (simp add: annotation_step_def)

lemma turn_step_invariant:
  assumes "turn_step sp nz speakers st turn = Inr st'"
    and "\<And>t0. map_of (attrib turn) ''startTime'' = Some t0 \<Longrightarrow> I (turn_start st t0)"
    and "\<And>s a s'. I s \<Longrightarrow> a \<in> set (iter_all turn) \<Longrightarrow>
           annotation_step sp nz (turn_prefix speakers turn) s a = Inr s' \<Longrightarrow> I s'"
    and "\<And>s t1 s'. I s \<Longrightarrow> turn_text s \<noteq> [] \<Longrightarrow> map_of (attrib turn) ''endTime'' = Some t1 \<Longrightarrow>
           emit sp (turn_prefix speakers turn) t1 s = Inr s' \<Longrightarrow> I s'"
  shows "I st'"
proof -
  from assms(1) obtain t0 s1 where t0: "map_of (attrib turn) ''startTime'' = Some t0"
    and loop: "foldM (annotation_step sp nz (turn_prefix speakers turn)) (turn_start st t0)
                 (iter_all turn) = Inr s1"
    and fin: "(if turn_text s1 \<noteq> []
               then and_then (subscript (attrib turn) ''endTime'')
                      (\<lambda>t1. emit sp (turn_prefix speakers turn) t1 s1)
               else Inr s1) = Inr st'"
    unfolding turn_step_unfold and_then_eq_Inr subscript_Inr by blast
  have "I (turn_start st t0)" using t0 by (rule assms(2))
  with loop have s1: "I s1" by (rule foldM_invariant) (rule assms(3))
  show ?thesis
  proof (cases "turn_text s1 = []")
    case True
    then show ?thesis using fin s1 by simp
  next
    case False
    with fin obtain t1 where "map_of (attrib turn) ''endTime'' = Some t1"
      "emit sp (turn_prefix speakers turn) t1 s1 = Inr st'"
      by (auto simp: and_then_eq_Inr subscript_Inr)
    with s1 False show ?thesis by (rule assms(4))
  qed
qed

section \<open>Blank text\<close>

lemma all_dropWhile: "(\<forall>x\<in>set (dropWhile P xs). P x) \<longleftrightarrow> (\<forall>x\<in>set xs. P x)"
proof
  assume all: "\<forall>x\<in>set (dropWhile P xs). P x"
  have "dropWhile P xs = []"
  proof (rule ccontr)
    assume ne: "dropWhile P xs \<noteq> []"
    then have "\<not> P (hd (dropWhile P xs))" by (rule hd_dropWhile)
    moreover have "hd (dropWhile P xs) \<in> set (dropWhile P xs)" using ne by simp
    ultimately show False using all by blast
  qed
  then show "\<forall>x\<in>set xs. P x" by (simp add: dropWhile_eq_Nil_conv)
next
  assume "\<forall>x\<in>set xs. P x"
  then show "\<forall>x\<in>set (dropWhile P xs). P x" by (meson set_dropWhileD)
qed

lemma blank_iff: "blank s \<longleftrightarrow> (\<forall>c\<in>set s. isspace c)"
proof -
  have "blank s \<longleftrightarrow> (\<forall>c\<in>set (rev (dropWhile isspace s)). isspace c)"
    by (simp add: blank_def strip_def dropWhile_eq_Nil_conv)
  then show ?thesis by (simp add: all_dropWhile)
qed

lemma blank_Nil [simp]: "blank []"
  by (simp add: blank_iff)

lemma blank_append [simp]: "blank (a @ b) \<longleftrightarrow> blank a \<and> blank b"
  by (auto simp: blank_iff)

lemma strip_subset: "set (strip s) \<subseteq> set s"
proof -
  have "set (strip s) \<subseteq> set (rev (dropWhile isspace s))"
    unfolding strip_def set_rev by (auto dest: set_dropWhileD)
  then show ?thesis by (auto dest: set_dropWhileD)
qed

lemma blank_strip [simp]: "blank (strip s) \<longleftrightarrow> blank s"
proof
  assume "blank s"
  then show "blank (strip s)" using strip_subset [of s] by (auto simp: blank_iff)
next
  assume b: "blank (strip s)"
  show "blank s"
  proof (rule ccontr)
    assume "\<not> blank s"
    then have ne: "dropWhile isspace (rev (dropWhile isspace s)) \<noteq> []"
      by (simp add: blank_def strip_def)
    then have "\<not> isspace (hd (dropWhile isspace (rev (dropWhile isspace s))))"
      by (rule hd_dropWhile)
    moreover have "hd (dropWhile isspace (rev (dropWhile isspace s))) \<in> set (strip s)"
      using ne by (simp add: strip_def)
    ultimately show False using b by (auto simp: blank_iff)
  qed
qed

lemma strip_Nil_blank: "strip s = [] \<longleftrightarrow> blank s"
  by (simp add: blank_def)

lemma noise_has_markup: "map_of noise d = Some m \<Longrightarrow> CHR ''<'' \<in> set m"
proof -
  assume "map_of noise d = Some m"
  then have "(d, m) \<in> set noise" by (rule map_of_SomeD)
  then have "m \<in> set (map snd noise)" by force
  moreover have "\<forall>m\<in>set (map snd noise). CHR ''<'' \<in> set m" by (simp add: noise_def)
  ultimately show ?thesis by blast
qed

lemma noise_not_blank: "map_of noise d = Some m \<Longrightarrow> \<not> blank m"
proof -
  assume "map_of noise d = Some m"
  then have "CHR ''<'' \<in> set m" by (rule noise_has_markup)
  moreover have "\<not> isspace CHR ''<''" by (simp add: isspace_def)
  ultimately show ?thesis unfolding blank_iff by blast
qed

section \<open>The cues of a turn\<close>

lemma turn_inv_start: "turn_inv st0 p (turn_start st0 t0)"
  by (simp add: turn_inv_def turn_start_def)

lemma turn_inv_emit:
  assumes "turn_inv st0 (if sp then pre else []) st" and "turn_text st \<noteq> []"
    and "emit sp pre stop st = Inr st'"
  shows "turn_inv st0 (if sp then pre else []) (st'\<lparr>turn_text := tx\<rparr>) \<longleftrightarrow> (tx \<noteq> [] \<longrightarrow> \<not> blank tx)"
proof -
  from assms(1) obtain new where new: "cues st = cues st0 @ new"
    "vtt_lines st = vtt_lines st0 @ concat (map cue_block new)"
    "\<forall>c\<in>set new. cue_prefix c = (if sp then pre else []) \<and> \<not> blank (cue_text c) \<and>
           (\<exists>stamp. generate_timestamp (cue_start c) (cue_end c) = Inr stamp)"
    and nb: "\<not> blank (turn_text st)"
    using assms(2) unfolding turn_inv_def by blast
  from assms(3) obtain stamp where stamp: "generate_timestamp (start_time st) stop = Inr stamp"
    and st': "st' = st\<lparr>vtt_lines := vtt_lines st @
                     [stamp, (if sp then pre else []) @ strip (turn_text st), []],
                  cues := cues st @
                     [\<lparr>cue_start = start_time st, cue_end = stop,
                       cue_prefix = (if sp then pre else []),
                       cue_text = strip (turn_text st)\<rparr>]\<rparr>"
    unfolding emit_Inr by blast
  let ?c = "\<lparr>cue_start = start_time st, cue_end = stop,
             cue_prefix = (if sp then pre else []), cue_text = strip (turn_text st)\<rparr>"
  have block: "cue_block ?c = [stamp, (if sp then pre else []) @ strip (turn_text st), []]"
    using stamp by (simp add: cue_block_def)
  have "cues (st'\<lparr>turn_text := tx\<rparr>) = cues st0 @ (new @ [?c])"
    using new(1) st' by simp
  moreover have "vtt_lines (st'\<lparr>turn_text := tx\<rparr>)
                   = vtt_lines st0 @ concat (map cue_block (new @ [?c]))"
    using new(2) st' block by simp
  moreover have "\<forall>c\<in>set (new @ [?c]). cue_prefix c = (if sp then pre else []) \<and>
           \<not> blank (cue_text c) \<and>
           (\<exists>stamp. generate_timestamp (cue_start c) (cue_end c) = Inr stamp)"
    using new(3) nb stamp by auto
  ultimately show ?thesis unfolding turn_inv_def by auto
qed

lemma turn_inv_text:
  assumes "turn_inv st0 p st" and "tx \<noteq> [] \<longrightarrow> \<not> blank tx"
  shows "turn_inv st0 p (st\<lparr>end_time := e, turn_text := tx, start_time := s\<rparr>)"
  using assms unfolding turn_inv_def by simp

lemma turn_inv_annotation_step:
  assumes "turn_inv st0 (if sp then pre else []) st"
    and "annotation_step sp nz pre st a = Inr st'"
  shows "turn_inv st0 (if sp then pre else []) st'"
proof -
  consider "tag a = ''Sync''" | "tag a = ''Event''" | "tag a \<noteq> ''Sync''" "tag a \<noteq> ''Event''"
    by blast
  then show ?thesis
  proof cases
    case 1
    from assms(2) obtain t tx where tx: "if turn_text st = []
         then st' = st\<lparr>end_time := t, turn_text := strip tx, start_time := t\<rparr>
         else \<exists>st1. emit sp pre t (st\<lparr>end_time := t\<rparr>) = Inr st1 \<and>
                st' = st1\<lparr>turn_text := strip tx, start_time := t\<rparr>"
      unfolding annotation_step_Sync [OF 1] by blast
    have ok: "strip tx \<noteq> [] \<longrightarrow> \<not> blank (strip tx)" by (simp add: strip_Nil_blank)
    show ?thesis
    proof (cases "turn_text st = []")
      case True
      then have "st' = st\<lparr>end_time := t, turn_text := strip tx, start_time := t\<rparr>"
        using tx by simp
      then show ?thesis using turn_inv_text [OF assms(1) ok] by simp
    next
      case False
      then obtain st1 where st1: "emit sp pre t (st\<lparr>end_time := t\<rparr>) = Inr st1"
        "st' = st1\<lparr>turn_text := strip tx, start_time := t\<rparr>"
        using tx by auto
      have "turn_inv st0 (if sp then pre else []) (st\<lparr>end_time := t\<rparr>)"
        using assms(1) unfolding turn_inv_def by simp
      moreover have "turn_text (st\<lparr>end_time := t\<rparr>) \<noteq> []" using False by simp
      ultimately have "turn_inv st0 (if sp then pre else []) (st1\<lparr>turn_text := strip tx\<rparr>)"
        using st1(1) ok turn_inv_emit by blast
      then show ?thesis unfolding st1(2) turn_inv_def by simp
    qed
  next
    case 2
    from assms(2) obtain tx where tx: "if nz
         then \<exists>d m. map_of (attrib a) ''desc'' = Some d \<and> map_of noise d = Some m \<and>
                st' = st\<lparr>turn_text := turn_text st @ m @ strip tx\<rparr>
         else st' = st\<lparr>turn_text := turn_text st @ strip tx\<rparr>"
      unfolding annotation_step_Event [OF 2] by blast
    have "\<exists>m. st' = st\<lparr>turn_text := turn_text st @ m @ strip tx\<rparr> \<and> (m = [] \<or> \<not> blank m)"
    proof (cases nz)
      case True
      then show ?thesis using tx noise_not_blank by auto
    next
      case False
      then have "st' = st\<lparr>turn_text := turn_text st @ [] @ strip tx\<rparr>" using tx by simp
      then show ?thesis by blast
    qed
    then obtain m where m: "st' = st\<lparr>turn_text := turn_text st @ m @ strip tx\<rparr>"
      "m = [] \<or> \<not> blank m"
      by blast
    have "turn_text st @ m @ strip tx \<noteq> [] \<longrightarrow> \<not> blank (turn_text st @ m @ strip tx)"
      using assms(1) m(2) unfolding turn_inv_def by (auto simp: strip_Nil_blank)
    then show ?thesis using assms(1) unfolding m(1) turn_inv_def by simp
  next
    case 3
    then have "st' = st" using assms(2) annotation_step_other [of a sp nz pre st] by simp
    then show ?thesis using assms(1) by simp
  qed
qed

lemma turn_step_turn_inv:
  assumes "turn_step sp nz speakers st turn = Inr st'"
  shows "turn_inv st (if sp then turn_prefix speakers turn else []) st'"
proof (rule turn_step_invariant [OF assms])
  fix t0
  show "turn_inv st (if sp then turn_prefix speakers turn else []) (turn_start st t0)"
    by (rule turn_inv_start)
next
  fix s a s'
  assume "turn_inv st (if sp then turn_prefix speakers turn else []) s"
    and "annotation_step sp nz (turn_prefix speakers turn) s a = Inr s'"
  then show "turn_inv st (if sp then turn_prefix speakers turn else []) s'"
    by (rule turn_inv_annotation_step)
next
  fix s t1 s'
  assume inv: "turn_inv st (if sp then turn_prefix speakers turn else []) s"
    and ne: "turn_text s \<noteq> []"
    and em: "emit sp (turn_prefix speakers turn) t1 s = Inr s'"
  have "turn_text s' = turn_text s" using em unfolding emit_Inr by auto
  then have "s'\<lparr>turn_text := turn_text s\<rparr> = s'" by simp
  moreover have "turn_text s \<noteq> [] \<longrightarrow> \<not> blank (turn_text s)"
    using inv unfolding turn_inv_def by simp
  ultimately show "turn_inv st (if sp then turn_prefix speakers turn else []) s'"
    using turn_inv_emit [OF inv ne em, of "turn_text s"] by simp
qed

section \<open>The cues of a document\<close>

lemma doc_inv_initial: "doc_inv language (initial_state language)"
  by (simp add: doc_inv_def initial_state_def)

lemma doc_inv_turn_step:
  assumes "doc_inv language st" and "turn_step sp nz speakers st turn = Inr st'"
  shows "doc_inv language st'"
proof -
  from turn_step_turn_inv [OF assms(2)] obtain new where new: "cues st' = cues st @ new"
    "vtt_lines st' = vtt_lines st @ concat (map cue_block new)"
    "\<forall>c\<in>set new. \<not> blank (cue_text c) \<and>
           (\<exists>stamp. generate_timestamp (cue_start c) (cue_end c) = Inr stamp)"
    unfolding turn_inv_def by blast
  then show ?thesis using assms(1) unfolding doc_inv_def by auto
qed

lemma convert_state_doc_inv:
  assumes "convert_state root language sp nz = Inr st"
  shows "doc_inv language st"
proof -
  from assms obtain speakers where
    "foldM (turn_step sp nz speakers) (initial_state language) (walked_turns root) = Inr st"
    unfolding convert_state_Inr by blast
  then show ?thesis using doc_inv_initial
    by (rule foldM_invariant) (rule doc_inv_turn_step)
qed

lemma convert_lines_Inr:
  "convert_lines root language sp nz = Inr ls \<longleftrightarrow>
     (\<exists>st. convert_state root language sp nz = Inr st \<and> ls = vtt_lines st)"
  by (auto simp: convert_lines_def and_then_eq_Inr)

lemma language_doc_state:
  "convert_state language_doc None False False =
     Inr \<lparr>start_time = ''0'', end_time = ''0'', turn_text = ''Language: en'',
          vtt_lines = [''WEBVTT'', [], ''00:00:00.000 --> 00:00:01.000'', ''Language: en'', []],
          cues = [\<lparr>cue_start = ''0'', cue_end = ''1'', cue_prefix = [],
                   cue_text = ''Language: en''\<rparr>]\<rparr>"
  by (simp add: language_doc_def walk_eval format_time_values strip_def isspace_def)

lemma hello_doc_en_state:
  "convert_state hello_doc (Some ''en'') True False =
     Inr \<lparr>start_time = ''2'', end_time = ''2'', turn_text = ''Hello there'',
          vtt_lines = [''WEBVTT'', ''Language: en'', [], ''00:00:02.000 --> 00:00:05.000'',
                       ''<v Alice>Hello there'', []],
          cues = [\<lparr>cue_start = ''2'', cue_end = ''5'', cue_prefix = ''<v Alice>'',
                   cue_text = ''Hello there''\<rparr>]\<rparr>"
  by (simp add: hello_doc_def hello_turn_def walk_eval format_time_values strip_def isspace_def)

section \<open>Which exception, and why\<close>

lemma float_of_str_error: "float_of_str time = Inl e \<Longrightarrow> e = ValueError"
  by (auto simp: float_of_str_def Let_def split: if_splits prod.splits option.splits)

lemma timedelta_of_seconds_error:
  "timedelta_of_seconds x = Inl e \<Longrightarrow> e = ValueError \<or> e = OverflowError"
  by (auto simp: timedelta_of_seconds_def Let_def split: pyfloat.splits if_splits)

lemma format_time_error: "format_time time = Inl e \<Longrightarrow> e = ValueError \<or> e = OverflowError"
  using float_of_str_error timedelta_of_seconds_error
  by (auto simp: format_time_def split: sum.splits)

lemma generate_timestamp_Inr:
  "generate_timestamp s t = Inr stamp \<longleftrightarrow>
     (\<exists>a b. format_time s = Inr a \<and> format_time t = Inr b \<and> stamp = a @ '' --> '' @ b)"
  by (auto simp: generate_timestamp_def split: sum.splits)

lemma generate_timestamp_Inl:
  "generate_timestamp s t = Inl e \<longleftrightarrow>
     format_time s = Inl e \<or> (\<exists>a. format_time s = Inr a \<and> format_time t = Inl e)"
  by (auto simp: generate_timestamp_def split: sum.splits)

lemma generate_timestamp_error:
  assumes "generate_timestamp s t = Inl e"
  shows "(e = ValueError \<or> e = OverflowError) \<and>
         \<not> ((\<exists>a. format_time s = Inr a) \<and> (\<exists>b. format_time t = Inr b))"
  using assms format_time_error unfolding generate_timestamp_Inl by auto

lemma sync_time_Some: "tag a = ''Sync'' \<Longrightarrow> map_of (attrib a) ''time'' = Some t \<Longrightarrow> sync_time a = [t]"
  by (simp add: sync_time_def)

lemma annotation_step_error:
  assumes "annotation_step sp nz pre s a = Inl e"
  shows "(e = KeyError \<and>
            ((tag a = ''Sync'' \<and> map_of (attrib a) ''time'' = None) \<or>
             (nz \<and> tag a = ''Event'' \<and>
                \<not> (\<exists>d m. map_of (attrib a) ''desc'' = Some d \<and> map_of noise d = Some m))))
       \<or> (e = AttributeError \<and> (tag a = ''Sync'' \<or> tag a = ''Event'') \<and> tail a = None)
       \<or> ((e = ValueError \<or> e = OverflowError) \<and> tag a = ''Sync'' \<and>
            \<not> ((\<exists>x. format_time (start_time s) = Inr x) \<and>
               (\<forall>t\<in>set (sync_time a). \<exists>x. format_time t = Inr x)))"
proof -
  consider "tag a = ''Sync''" | "tag a = ''Event''" | "tag a \<noteq> ''Sync''" "tag a \<noteq> ''Event''"
    by blast
  then show ?thesis
  proof cases
    case 1
    show ?thesis
    proof (cases "map_of (attrib a) ''time''")
      case None
      then have "e = KeyError" using assms 1 by (simp add: annotation_step_def subscript_def)
      then show ?thesis using 1 None by simp
    next
      case (Some t)
      then have sub: "subscript (attrib a) ''time'' = Inr t" by (simp add: subscript_Inr)
      have st: "sync_time a = [t]" using 1 Some by (rule sync_time_Some)
      from assms have "(turn_text s \<noteq> [] \<and> emit sp pre t (s\<lparr>end_time := t\<rparr>) = Inl e)
          \<or> (tail a = None \<and> e = AttributeError)"
        using 1 sub
        by (auto simp: annotation_step_def Let_def and_then_eq_Inl append_tail_Inl
              split: if_splits)
      then show ?thesis
      proof
        assume "turn_text s \<noteq> [] \<and> emit sp pre t (s\<lparr>end_time := t\<rparr>) = Inl e"
        then have "generate_timestamp (start_time s) t = Inl e" by (simp add: emit_Inl)
        then show ?thesis using generate_timestamp_error [of "start_time s" t e] 1 st by auto
      next
        assume "tail a = None \<and> e = AttributeError"
        then show ?thesis using 1 by simp
      qed
    qed
  next
    case 2
    then have ev: "tag a \<noteq> ''Turn''" "tag a \<noteq> ''Sync''" by simp_all
    from assms have "(nz \<and> e = KeyError \<and>
           \<not> (\<exists>d m. map_of (attrib a) ''desc'' = Some d \<and> map_of noise d = Some m))
        \<or> (tail a = None \<and> e = AttributeError)"
      using 2 ev
      by (auto simp: annotation_step_def and_then_eq_Inl append_tail_Inl subscript_Inl subscript_Inr
            split: if_splits)
    then show ?thesis using 2 by auto
  next
    case 3
    then show ?thesis using assms annotation_step_other [of a sp nz pre s] by simp
  qed
qed

lemma annotation_step_start_time:
  assumes "annotation_step sp nz pre s a = Inr s'"
  shows "start_time s' = start_time s \<or> start_time s' \<in> set (sync_time a)"
proof -
  consider "tag a = ''Sync''" | "tag a = ''Event''" | "tag a \<noteq> ''Sync''" "tag a \<noteq> ''Event''"
    by blast
  then show ?thesis
  proof cases
    case 1
    then show ?thesis
      using assms unfolding annotation_step_Sync [OF 1]
      by (auto simp: sync_time_def split: if_splits)
  next
    case 2
    then show ?thesis
      using assms unfolding annotation_step_Event [OF 2] by (auto split: if_splits)
  next
    case 3
    then show ?thesis using assms annotation_step_other [of a sp nz pre s] by simp
  qed
qed

lemma sync_time_subset: "a \<in> set (iter_all turn) \<Longrightarrow> set (sync_time a) \<subseteq> set (time_codes turn)"
  by (auto simp: time_codes_def)

lemma start_time_in_codes:
  assumes "start_time s \<in> set (time_codes turn)" and "a \<in> set (iter_all turn)"
    and "annotation_step sp nz pre s a = Inr s'"
  shows "start_time s' \<in> set (time_codes turn)"
  using annotation_step_start_time [OF assms(3)] assms(1) sync_time_subset [OF assms(2)] by auto

lemma turn_start_in_codes:
  "map_of (attrib turn) ''startTime'' = Some t0 \<Longrightarrow>
     start_time (turn_start st t0) \<in> set (time_codes turn)"
  by (simp add: turn_start_def time_codes_def)

lemma end_time_in_codes:
  "map_of (attrib turn) ''endTime'' = Some t1 \<Longrightarrow> t1 \<in> set (time_codes turn)"
  by (simp add: time_codes_def)

lemma turn_step_error:
  assumes "turn_step sp nz speakers st turn = Inl e"
  shows "(e = KeyError \<and> (\<not> turn_keys_ok turn \<or> (nz \<and> \<not> turn_codes_ok turn)))
       \<or> (e = AttributeError \<and> \<not> turn_tails_ok turn)
       \<or> ((e = ValueError \<or> e = OverflowError) \<and> \<not> turn_times_ok turn)"
proof (cases "map_of (attrib turn) ''startTime''")
  case None
  then have "e = KeyError" using assms by (simp add: turn_step_unfold subscript_def)
  then show ?thesis using None by (simp add: turn_keys_ok_def)
next
  case (Some t0)
  let ?f = "annotation_step sp nz (turn_prefix speakers turn)"
  let ?I = "\<lambda>s. start_time s \<in> set (time_codes turn)"
  have I0: "?I (turn_start st t0)" using Some by (rule turn_start_in_codes)
  have sub: "subscript (attrib turn) ''startTime'' = Inr t0" using Some by (simp add: subscript_Inr)
  show ?thesis
  proof (cases "foldM ?f (turn_start st t0) (iter_all turn)")
    case (Inl e')
    then have "e' = e" using assms sub by (simp add: turn_step_unfold)
    with Inl have "foldM ?f (turn_start st t0) (iter_all turn) = Inl e" by simp
    then have "\<exists>s1 a. a \<in> set (iter_all turn) \<and> ?I s1 \<and> ?f s1 a = Inl e"
      using I0 by (rule foldM_failure [where I = ?I]) (blast intro: start_time_in_codes)
    then obtain s1 a where a: "a \<in> set (iter_all turn)" "?I s1" "?f s1 a = Inl e"
      by blast
    from annotation_step_error [OF a(3)] show ?thesis
    proof (elim disjE conjE)
      assume "e = KeyError" "tag a = ''Sync''" "map_of (attrib a) ''time'' = None"
      then show ?thesis using a(1) by (auto simp: turn_keys_ok_def)
    next
      assume "e = KeyError" "nz" "tag a = ''Event''"
        "\<not> (\<exists>d m. map_of (attrib a) ''desc'' = Some d \<and> map_of noise d = Some m)"
      then show ?thesis using a(1) by (auto simp: turn_codes_ok_def)
    next
      assume "e = AttributeError" "tail a = None" "tag a = ''Sync''"
      then show ?thesis using a(1) by (auto simp: turn_tails_ok_def)
    next
      assume "e = AttributeError" "tail a = None" "tag a = ''Event''"
      then show ?thesis using a(1) by (auto simp: turn_tails_ok_def)
    next
      assume e: "e = ValueError"
        and bad: "\<not> ((\<exists>x. format_time (start_time s1) = Inr x) \<and>
               (\<forall>t\<in>set (sync_time a). \<exists>x. format_time t = Inr x))"
      have "\<not> turn_times_ok turn"
        using bad a(2) sync_time_subset [OF a(1)] unfolding turn_times_ok_def by blast
      then show ?thesis using e by simp
    next
      assume e: "e = OverflowError"
        and bad: "\<not> ((\<exists>x. format_time (start_time s1) = Inr x) \<and>
               (\<forall>t\<in>set (sync_time a). \<exists>x. format_time t = Inr x))"
      have "\<not> turn_times_ok turn"
        using bad a(2) sync_time_subset [OF a(1)] unfolding turn_times_ok_def by blast
      then show ?thesis using e by simp
    qed
  next
    case (Inr s1)
    have I1: "?I s1"
      using Inr I0 by (rule foldM_invariant [where I = ?I]) (blast intro: start_time_in_codes)
    have ne: "turn_text s1 \<noteq> []" using assms sub Inr by (auto simp: turn_step_unfold)
    show ?thesis
    proof (cases "map_of (attrib turn) ''endTime''")
      case None
      then have "e = KeyError"
        using assms sub Inr ne by (simp add: turn_step_unfold subscript_def)
      then show ?thesis using None by (simp add: turn_keys_ok_def)
    next
      case (Some t1)
      then have "subscript (attrib turn) ''endTime'' = Inr t1" by (simp add: subscript_Inr)
      then have "generate_timestamp (start_time s1) t1 = Inl e"
        using assms sub Inr ne by (simp add: turn_step_unfold emit_Inl)
      then have "(e = ValueError \<or> e = OverflowError) \<and>
         \<not> ((\<exists>a. format_time (start_time s1) = Inr a) \<and> (\<exists>b. format_time t1 = Inr b))"
        by (rule generate_timestamp_error)
      moreover have "t1 \<in> set (time_codes turn)" using Some by (rule end_time_in_codes)
      ultimately have "(e = ValueError \<or> e = OverflowError) \<and> \<not> turn_times_ok turn"
        using I1 unfolding turn_times_ok_def by blast
      then show ?thesis by blast
    qed
  qed
qed

lemma speaker_step_Inl:
  "speaker_step d s = Inl e \<longleftrightarrow>
     e = KeyError \<and> (map_of (attrib s) ''id'' = None \<or> map_of (attrib s) ''name'' = None)"
  by (auto simp: speaker_step_def and_then_eq_Inl subscript_Inl subscript_Inr)

lemma speakers_of_error:
  assumes "speakers_of root = Inl e"
  shows "(e = AttributeError \<and> find_child ''Speakers'' root = None)
       \<or> (e = KeyError \<and> (\<exists>sp. find_child ''Speakers'' root = Some sp \<and>
            (\<exists>s\<in>set (iter_elem (Some ''Speaker'') sp).
               map_of (attrib s) ''id'' = None \<or> map_of (attrib s) ''name'' = None)))"
proof (cases "find_child ''Speakers'' root")
  case None
  then show ?thesis using assms by (simp add: speakers_of_def)
next
  case (Some sp)
  then have "foldM speaker_step Map.empty (iter_elem (Some ''Speaker'') sp) = Inl e"
    using assms by (simp add: speakers_of_def)
  then have "\<exists>d s. s \<in> set (iter_elem (Some ''Speaker'') sp) \<and> True \<and> speaker_step d s = Inl e"
    by (rule foldM_failure [where I = "\<lambda>_. True"]) simp_all
  then show ?thesis using Some by (auto simp: speaker_step_Inl)
qed

text \<open>
  The exception \<open>convert\<close> raises names what the document lacks.
\<close>

lemma convert_state_error:
  assumes "convert_state root language sp nz = Inl e"
  shows "(e = KeyError \<and> (\<not> keys_ok root \<or> (nz \<and> \<not> codes_ok root)))
       \<or> (e = AttributeError \<and> \<not> tails_ok root)
       \<or> ((e = ValueError \<or> e = OverflowError) \<and> \<not> times_ok root)"
proof (cases "speakers_of root")
  case (Inl e')
  then have "e' = e" using assms by (simp add: convert_state_turns)
  then show ?thesis using speakers_of_error [OF Inl] by (auto simp: keys_ok_def tails_ok_def)
next
  case (Inr speakers)
  show ?thesis
  proof (cases "find_child ''Episode'' root")
    case None
    then have "e = AttributeError" using assms Inr by (simp add: convert_state_turns)
    then show ?thesis using None by (simp add: tails_ok_def)
  next
    case (Some episode)
    then have "foldM (turn_step sp nz speakers) (initial_state language) (walked_turns root) = Inl e"
      using assms Inr by (simp add: convert_state_turns)
    then have "\<exists>s turn. turn \<in> set (walked_turns root) \<and> True \<and> turn_step sp nz speakers s turn = Inl e"
      by (rule foldM_failure [where I = "\<lambda>_. True"]) simp_all
    then obtain s turn where turn: "turn \<in> set (walked_turns root)"
      "turn_step sp nz speakers s turn = Inl e"
      by blast
    from turn_step_error [OF turn(2)] show ?thesis
      using turn(1) by (auto simp: keys_ok_def codes_ok_def tails_ok_def times_ok_def)
  qed
qed

text \<open>A document that lacks nothing is converted.\<close>

lemma convert_state_total:
  assumes "keys_ok root" and "nz \<longrightarrow> codes_ok root" and "tails_ok root" and "times_ok root"
  shows "\<exists>st. convert_state root language sp nz = Inr st"
proof (cases "convert_state root language sp nz")
  case (Inl e)
  from convert_state_error [OF Inl] show ?thesis using assms by (cases e) auto
next
  case (Inr st)
  then show ?thesis by blast
qed

text \<open>In a conversion that succeeds every annotation of every turn was stepped over.\<close>

lemma convert_state_steps:
  assumes "convert_state root language sp nz = Inr st"
    and "turn \<in> set (walked_turns root)" and "a \<in> set (iter_all turn)"
  shows "\<exists>pre s s'. annotation_step sp nz pre s a = Inr s'"
proof -
  from assms(1) obtain speakers where
    "foldM (turn_step sp nz speakers) (initial_state language) (walked_turns root) = Inr st"
    unfolding convert_state_Inr by blast
  then have "\<exists>s1 s2. True \<and> turn_step sp nz speakers s1 turn = Inr s2"
    using assms(2) by (rule foldM_step_succeeds [where I = "\<lambda>_. True"]) simp_all
  then obtain s1 s2 where "turn_step sp nz speakers s1 turn = Inr s2" by blast
  then obtain t0 s3 where
    "foldM (annotation_step sp nz (turn_prefix speakers turn)) (turn_start s1 t0) (iter_all turn)
       = Inr s3"
    unfolding turn_step_unfold and_then_eq_Inr by blast
  then have "\<exists>s s'. True \<and> annotation_step sp nz (turn_prefix speakers turn) s a = Inr s'"
    using assms(3) by (rule foldM_step_succeeds [where I = "\<lambda>_. True"]) simp_all
  then show ?thesis by blast
qed

lemma annotation_step_needs_tail:
  assumes "annotation_step sp nz pre s a = Inr s'" and "tag a = ''Sync'' \<or> tag a = ''Event''"
  shows "tail a \<noteq> None"
  using assms annotation_step_Sync [of a sp nz pre s s'] annotation_step_Event [of a sp nz pre s s']
  by auto

lemma convert_Inl: "convert root language sp nz = Inl e \<longleftrightarrow> convert_state root language sp nz = Inl e"
  by (auto simp: convert_def convert_lines_def and_then_eq_Inl)

lemma convert_Inr:
  "convert root language sp nz = Inr out \<longleftrightarrow>
     (\<exists>st. convert_state root language sp nz = Inr st \<and> out = join_lines (vtt_lines st))"
  by (auto simp: convert_def convert_lines_def and_then_eq_Inr)

section \<open>The example documents\<close>

lemmas doc_eval = walked_turns_def keys_ok_def turn_keys_ok_def codes_ok_def turn_codes_ok_def
  times_ok_def turn_times_ok_def tails_ok_def turn_tails_ok_def time_codes_def sync_time_def
  find_child_def iter_elem_def

lemma no_tail_doc_state: "convert_state no_tail_doc None False False = Inl AttributeError"
  by (simp add: no_tail_doc_def no_tail_turn_def walk_eval format_time_values strip_def isspace_def)

lemma no_tail_doc_walked: "walked_turns no_tail_doc = [no_tail_turn]"
  by (simp add: no_tail_doc_def no_tail_turn_def doc_eval)

lemma no_tail_doc_ok: "keys_ok no_tail_doc \<and> times_ok no_tail_doc"
  by (simp add: doc_eval no_tail_doc_def no_tail_turn_def format_time_values)

lemma music_doc_walked: "walked_turns music_doc = [music_turn]"
  by (simp add: music_doc_def music_turn_def doc_eval)

lemma music_doc_ok: "keys_ok music_doc \<and> times_ok music_doc \<and> tails_ok music_doc"
  by (simp add: doc_eval music_doc_def music_turn_def format_time_values)

lemma music_doc_noise: "convert_state music_doc None False True = Inl KeyError"
  by (simp add: music_doc_def music_turn_def walk_eval format_time_values strip_def isspace_def)

lemma music_doc_state:
  "convert_state music_doc None False False =
     Inr \<lparr>start_time = ''0'', end_time = ''0'', turn_text = ''xy'',
          vtt_lines = [''WEBVTT'', [], ''00:00:00.000 --> 00:00:01.000'', ''xy'', []],
          cues = [\<lparr>cue_start = ''0'', cue_end = ''1'', cue_prefix = [], cue_text = ''xy''\<rparr>]\<rparr>"
  by (simp add: music_doc_def music_turn_def walk_eval format_time_values strip_def isspace_def)

lemma noise_codes:
  "d \<notin> set [''COUGH'', ''EE-HESITATION'', ''LAUGHTER'', ''LIP_SMACK'', ''LOUD_BREATH'',
       ''NOISE'', ''SILENCE'', ''UH-HUH'', ''UNINTELLIGIBLE''] \<Longrightarrow> map_of noise d = None"
proof -
  have "map fst noise = [''COUGH'', ''EE-HESITATION'', ''LAUGHTER'', ''LIP_SMACK'', ''LOUD_BREATH'',
       ''NOISE'', ''SILENCE'', ''UH-HUH'', ''UNINTELLIGIBLE'']"
    by (simp add: noise_def)
  moreover assume "d \<notin> set [''COUGH'', ''EE-HESITATION'', ''LAUGHTER'', ''LIP_SMACK'',
       ''LOUD_BREATH'', ''NOISE'', ''SILENCE'', ''UH-HUH'', ''UNINTELLIGIBLE'']"
  ultimately have "d \<notin> fst ` set noise" by (metis list.set_map)
  then show ?thesis by (simp add: map_of_eq_None_iff)
qed

section \<open>When \<open>format_time\<close> fails\<close>

lemma days_representable: "\<not> 999999999 < \<bar>days (normalize us)\<bar> \<longleftrightarrow> representable us"
proof -
  define d where "d = us div 86400000000"
  define r where "r = us mod 86400000000"
  have "us div 1000000 div 86400 = us div (1000000 * 86400)"
    by (rule zdiv_zmult2_eq [symmetric]) simp
  then have days: "days (normalize us) = d" by (simp add: normalize_def d_def)
  have "us = 86400000000 * d + r" by (simp add: d_def r_def)
  moreover have "0 \<le> r" "r < 86400000000" by (simp_all add: r_def)
  ultimately show ?thesis unfolding days representable_def by linarith
qed

lemma timedelta_of_seconds_fails_iff:
  "(\<exists>e. timedelta_of_seconds x = Inl e) \<longleftrightarrow>
     (case x of Finite n k \<Rightarrow> \<not> representable (to_microseconds n k) | _ \<Rightarrow> True)"
proof (cases x)
  case (Finite n k)
  then have "(\<exists>e. timedelta_of_seconds x = Inl e)
               \<longleftrightarrow> 999999999 < \<bar>days (normalize (to_microseconds n k))\<bar>"
    by (simp add: timedelta_of_seconds_def Let_def)
  then have "(\<exists>e. timedelta_of_seconds x = Inl e)
               \<longleftrightarrow> \<not> representable (to_microseconds n k)"
    using days_representable [of "to_microseconds n k"] by blast
  then show ?thesis by (simp add: Finite)
next
  case Infinite
  then show ?thesis by (simp add: timedelta_of_seconds_def)
next
  case NaN
  then show ?thesis by (simp add: timedelta_of_seconds_def)
qed

lemma format_time_fails_iff:
  "(\<exists>e. format_time time = Inl e) \<longleftrightarrow>
     (case float_of_str time of
        Inl e \<Rightarrow> True
      | Inr x \<Rightarrow> (case x of Finite n k \<Rightarrow> \<not> representable (to_microseconds n k) | _ \<Rightarrow> True))"
proof (cases "float_of_str time")
  case (Inl e)
  then show ?thesis by (simp add: format_time_def)
next
  case (Inr x)
  then have "(\<exists>e. format_time time = Inl e) \<longleftrightarrow> (\<exists>e. timedelta_of_seconds x = Inl e)"
    by (cases "timedelta_of_seconds x") (simp_all add: format_time_def)
  with Inr show ?thesis by (simp add: timedelta_of_seconds_fails_iff)
qed

lemma format_time_total: "(\<exists>e. format_time time = Inl e) \<or> (\<exists>out. format_time time = Inr out)"
  by (cases "format_time time") auto

text \<open>
  A turn whose last annotation has a tail that is not blank ends with text, so its last
  cue is written with the turn's \<open>endTime\<close>.
\<close>

lemma annotation_step_text:
  assumes "annotation_step sp nz pre s a = Inr s'" and "tag a = ''Sync'' \<or> tag a = ''Event''"
    and "tail a = Some tx" and "\<not> blank tx"
  shows "turn_text s' \<noteq> []"
proof -
  have "strip tx \<noteq> []" using assms(4) by (simp add: blank_def)
  then show ?thesis
    using assms(1-3) annotation_step_Sync [of a sp nz pre s s']
      annotation_step_Event [of a sp nz pre s s']
    by (auto split: if_splits)
qed

lemma turn_step_formats_end:
  assumes "turn_step sp nz speakers st turn = Inr st'" and "iter_all turn = pre @ [a]"
    and "tag a = ''Sync'' \<or> tag a = ''Event''" and "tail a = Some tx" and "\<not> blank tx"
    and "map_of (attrib turn) ''endTime'' = Some t1"
  shows "\<exists>out. format_time t1 = Inr out"
proof -
  let ?f = "annotation_step sp nz (turn_prefix speakers turn)"
  from assms(1) obtain t0 s1 where loop: "foldM ?f (turn_start st t0) (iter_all turn) = Inr s1"
    and fin: "(if turn_text s1 \<noteq> []
               then and_then (subscript (attrib turn) ''endTime'')
                      (\<lambda>t1. emit sp (turn_prefix speakers turn) t1 s1)
               else Inr s1) = Inr st'"
    unfolding turn_step_unfold and_then_eq_Inr by blast
  from loop obtain s0 where "?f s0 a = Inr s1"
    unfolding assms(2) foldM_append and_then_eq_Inr foldM_Cons_Inr by auto
  then have "turn_text s1 \<noteq> []" using assms(3-5) by (rule annotation_step_text)
  then have "emit sp (turn_prefix speakers turn) t1 s1 = Inr st'"
    using fin assms(6) by (simp add: subscript_def)
  then show ?thesis unfolding emit_Inr generate_timestamp_Inr by blast
qed

lemma convert_state_turn_steps:
  assumes "convert_state root language sp nz = Inr st" and "turn \<in> set (walked_turns root)"
  shows "\<exists>speakers s s'. turn_step sp nz speakers s turn = Inr s'"
proof -
  from assms(1) obtain speakers where
    "foldM (turn_step sp nz speakers) (initial_state language) (walked_turns root) = Inr st"
    unfolding convert_state_Inr by blast
  then have "\<exists>s1 s2. True \<and> turn_step sp nz speakers s1 turn = Inr s2"
    using assms(2) by (rule foldM_step_succeeds [where I = "\<lambda>_. True"]) simp_all
  then show ?thesis by blast
qed

lemma format_time_minus_1: "format_time ''-1'' = Inr ''0-1 day, 23:.000''"
  using format_time_finite [of "''-1''" "- 4503599627370496" "- 52"] by (simp add: format_num)

lemma format_time_36000_5: "format_time ''36000.5'' = Inr ''010:00:00.50''"
  using format_time_finite [of "''36000.5''" 4947871044468736 "- 37"] by (simp add: format_num)

lemma format_time_86400: "format_time ''86400'' = Inr ''01 day, 0:00.000''"
  using format_time_finite [of "''86400''" 5937362789990400 "- 36"] by (simp add: format_num)

lemma format_time_abc: "format_time ''abc'' = Inl ValueError"
  by (simp add: format_time_def float_eval)

lemma bad_end_doc_walked: "walked_turns bad_end_doc = [bad_end_turn]"
  by (simp add: bad_end_doc_def bad_end_turn_def doc_eval)

lemma bad_end_doc_state: "convert_state bad_end_doc None False False = Inl ValueError"
  by (simp add: bad_end_doc_def bad_end_turn_def walk_eval format_time_values format_time_abc
        strip_def isspace_def)

section \<open>Where a speaker marker can come from\<close>

lemma sublist_strip: "sublist (strip s) s"
proof -
  have "suffix (dropWhile isspace (rev (dropWhile isspace s))) (rev (dropWhile isspace s))"
    by (rule suffix_dropWhile)
  then have "prefix (strip s) (dropWhile isspace s)"
    by (simp add: suffix_to_prefix strip_def)
  then have "sublist (strip s) (dropWhile isspace s)" by (rule prefix_imp_sublist)
  moreover have "sublist (dropWhile isspace s) s"
    using suffix_dropWhile [of isspace s] by (rule suffix_imp_sublist)
  ultimately show ?thesis by (rule sublist_order.order_trans)
qed

lemma marker_sublist: "sublist ''<v '' s \<Longrightarrow> sublist ''<v'' s"
proof -
  have "sublist ''<v'' ''<v ''" by (simp add: sublist_Cons_right)
  then show "sublist ''<v '' s \<Longrightarrow> sublist ''<v'' s" by (rule sublist_order.order_trans)
qed

lemma plain_no_marker: "CHR ''<'' \<notin> set s \<Longrightarrow> \<not> sublist ''<v '' s"
  using set_mono_sublist [of "''<v ''" s] by auto

lemma plain_no_open: "CHR ''<'' \<notin> set s \<Longrightarrow> no_open s"
proof -
  assume plain: "CHR ''<'' \<notin> set s"
  have "\<not> sublist ''<v'' s" using set_mono_sublist [of "''<v''" s] plain by auto
  moreover have "s \<noteq> [] \<longrightarrow> last s \<noteq> CHR ''<''" using plain by (metis last_in_set)
  ultimately show ?thesis by (simp add: no_open_def)
qed

lemma no_open_Nil [simp]: "no_open []"
  by (simp add: no_open_def)

lemma split_marker:
  assumes "''<v'' = xs1 @ xs2"
  shows "(xs1 = [] \<and> xs2 = ''<v'') \<or> (xs1 = ''<'' \<and> xs2 = ''v'') \<or> (xs1 = ''<v'' \<and> xs2 = [])"
proof (cases xs1)
  case Nil
  then show ?thesis using assms by simp
next
  case (Cons c cs)
  then have c: "c = CHR ''<''" and rest: "''v'' = cs @ xs2" using assms by simp_all
  show ?thesis
  proof (cases cs)
    case Nil
    then show ?thesis using Cons c rest by simp
  next
    case (Cons d ds)
    then have "d = CHR ''v''" and "[] = ds @ xs2" using rest by simp_all
    then show ?thesis using \<open>xs1 = c # cs\<close> c Cons by simp
  qed
qed

lemma no_open_append:
  assumes "no_open a" and "no_open b"
  shows "no_open (a @ b)"
proof -
  have "\<not> sublist ''<v'' (a @ b)"
  proof
    assume "sublist ''<v'' (a @ b)"
    then consider "sublist ''<v'' a" | "sublist ''<v'' b"
      | xs1 xs2 where "''<v'' = xs1 @ xs2" "suffix xs1 a" "prefix xs2 b"
      unfolding sublist_append by blast
    then show False
    proof cases
      case 1
      then show False using assms(1) by (simp add: no_open_def)
    next
      case 2
      then show False using assms(2) by (simp add: no_open_def)
    next
      case 3
      from split_marker [OF 3(1)] show False
      proof (elim disjE conjE)
        assume "xs1 = []" "xs2 = ''<v''"
        then have "sublist ''<v'' b" using 3(3) prefix_imp_sublist by blast
        then show False using assms(2) by (simp add: no_open_def)
      next
        assume "xs1 = ''<''" "xs2 = ''v''"
        then have "suffix ''<'' a" using 3(2) by simp
        then obtain p where "a = p @ ''<''" unfolding suffix_def by blast
        then show False using assms(1) by (simp add: no_open_def)
      next
        assume "xs1 = ''<v''" "xs2 = []"
        then have "sublist ''<v'' a" using 3(2) suffix_imp_sublist by blast
        then show False using assms(1) by (simp add: no_open_def)
      qed
    qed
  qed
  moreover have "a @ b \<noteq> [] \<longrightarrow> last (a @ b) \<noteq> CHR ''<''"
    using assms by (cases "b = []") (auto simp: no_open_def)
  ultimately show ?thesis by (simp add: no_open_def)
qed

lemma no_open_strip_line: "no_open s \<Longrightarrow> \<not> sublist ''<v '' (strip s)"
proof
  assume "no_open s" and "sublist ''<v '' (strip s)"
  then have "sublist ''<v'' (strip s)" using marker_sublist by blast
  then have "sublist ''<v'' s" using sublist_strip by (rule sublist_order.order_trans)
  then show False using \<open>no_open s\<close> by (simp add: no_open_def)
qed

lemma strip_plain: "CHR ''<'' \<notin> set tx \<Longrightarrow> no_open (strip tx)"
  using strip_subset [of tx] by (auto intro: plain_no_open)

lemma no_open_markups:
  "no_open '' <i>(coughs)</i> ''" "no_open '' <i>(hesitates)</i> ''"
  "no_open '' <i>(laughs)</i> ''" "no_open '' <i>(smacks lips)</i> ''"
  "no_open '' <i>(breaths loudly)</i> ''" "no_open '' <i>(noise)</i> ''"
  "no_open '' <i>(silence)</i> ''" "no_open '' <i>(uh-huh)</i> ''"
  "no_open '' <i>(unintelligible)</i> ''"
  by (simp_all add: no_open_def sublist_Cons_right)

lemma noise_no_open: "map_of noise d = Some m \<Longrightarrow> no_open m"
proof -
  assume "map_of noise d = Some m"
  then have "(d, m) \<in> set noise" by (rule map_of_SomeD)
  then have "m \<in> set (map snd noise)" by force
  moreover have "\<forall>m\<in>set (map snd noise). no_open m"
    by (simp add: noise_def no_open_markups)
  ultimately show ?thesis by blast
qed

lemma str_nat_plain: "CHR ''<'' \<notin> set (str_nat n)"
  using str_nat_digits [of n] by auto

lemma zero_pad_plain: "CHR ''<'' \<notin> set (zero_pad w n)"
  using str_nat_plain by (simp add: zero_pad_def)

lemma str_int_plain: "CHR ''<'' \<notin> set (str_int i)"
  using str_nat_plain by (simp add: str_int_def)

lemma str_timedelta_plain: "CHR ''<'' \<notin> set (str_timedelta td)"
  by (simp add: str_timedelta_split whole_part_def str_nat_plain zero_pad_plain str_int_plain)

lemma pad_time_plain: "CHR ''<'' \<notin> set s \<Longrightarrow> CHR ''<'' \<notin> set (pad_time s)"
  by (simp add: pad_time_def)

lemma format_time_plain: "format_time time = Inr out \<Longrightarrow> CHR ''<'' \<notin> set out"
proof -
  assume "format_time time = Inr out"
  then obtain td where out: "out = pad_time (CHR ''0'' # take 11 (str_timedelta td))"
    using format_time_pad_time by blast
  have "CHR ''<'' \<notin> set (CHR ''0'' # take 11 (str_timedelta td))"
    using str_timedelta_plain [of td] by (auto dest: in_set_takeD)
  then show ?thesis unfolding out by (rule pad_time_plain)
qed

lemma generate_timestamp_plain:
  "generate_timestamp s t = Inr stamp \<Longrightarrow> CHR ''<'' \<notin> set stamp"
  using format_time_plain unfolding generate_timestamp_Inr by auto

lemma plain_inv_emit:
  assumes "plain_inv st" and "emit False pre stop st = Inr st'"
  shows "plain_inv st'"
proof -
  from assms(2) obtain stamp where stamp: "generate_timestamp (start_time st) stop = Inr stamp"
    and st': "vtt_lines st' = vtt_lines st @ [stamp, strip (turn_text st), []]"
      "turn_text st' = turn_text st"
    unfolding emit_Inr by auto
  have "\<not> sublist ''<v '' stamp"
    using generate_timestamp_plain [OF stamp] by (rule plain_no_marker)
  moreover have "\<not> sublist ''<v '' (strip (turn_text st))"
    using assms(1) by (simp add: plain_inv_def no_open_strip_line)
  ultimately show ?thesis using assms(1) st' by (auto simp: plain_inv_def)
qed

lemma plain_inv_text:
  "plain_inv st \<Longrightarrow> no_open tx \<Longrightarrow>
     plain_inv (st\<lparr>end_time := e, turn_text := tx, start_time := s\<rparr>)"
  by (simp add: plain_inv_def)

lemma plain_inv_annotation_step:
  assumes "plain_inv st" and "annotation_step False nz pre st a = Inr st'"
    and "\<forall>tx. tail a = Some tx \<longrightarrow> CHR ''<'' \<notin> set tx"
  shows "plain_inv st'"
proof -
  consider "tag a = ''Sync''" | "tag a = ''Event''" | "tag a \<noteq> ''Sync''" "tag a \<noteq> ''Event''"
    by blast
  then show ?thesis
  proof cases
    case 1
    from assms(2) obtain t tx where tx: "tail a = Some tx"
      and res: "if turn_text st = []
         then st' = st\<lparr>end_time := t, turn_text := strip tx, start_time := t\<rparr>
         else \<exists>st1. emit False pre t (st\<lparr>end_time := t\<rparr>) = Inr st1 \<and>
                st' = st1\<lparr>turn_text := strip tx, start_time := t\<rparr>"
      unfolding annotation_step_Sync [OF 1] by blast
    have ok: "no_open (strip tx)" using assms(3) tx by (simp add: strip_plain)
    show ?thesis
    proof (cases "turn_text st = []")
      case True
      then have "st' = st\<lparr>end_time := t, turn_text := strip tx, start_time := t\<rparr>"
        using res by simp
      then show ?thesis using plain_inv_text [OF assms(1) ok] by simp
    next
      case False
      then obtain st1 where st1: "emit False pre t (st\<lparr>end_time := t\<rparr>) = Inr st1"
        "st' = st1\<lparr>turn_text := strip tx, start_time := t\<rparr>"
        using res by auto
      have "plain_inv (st\<lparr>end_time := t\<rparr>)" using assms(1) by (simp add: plain_inv_def)
      then have "plain_inv st1" using st1(1) by (rule plain_inv_emit)
      then show ?thesis using ok unfolding st1(2) by (simp add: plain_inv_def)
    qed
  next
    case 2
    from assms(2) obtain tx where tx: "tail a = Some tx"
      and res: "if nz
         then \<exists>d m. map_of (attrib a) ''desc'' = Some d \<and> map_of noise d = Some m \<and>
                st' = st\<lparr>turn_text := turn_text st @ m @ strip tx\<rparr>
         else st' = st\<lparr>turn_text := turn_text st @ strip tx\<rparr>"
      unfolding annotation_step_Event [OF 2] by blast
    have ok: "no_open (strip tx)" using assms(3) tx by (simp add: strip_plain)
    have "\<exists>m. st' = st\<lparr>turn_text := turn_text st @ m @ strip tx\<rparr> \<and> no_open m"
    proof (cases nz)
      case True
      then show ?thesis using res noise_no_open by auto
    next
      case False
      then have "st' = st\<lparr>turn_text := turn_text st @ [] @ strip tx\<rparr>" using res by simp
      then show ?thesis using no_open_Nil by blast
    qed
    then obtain m where m: "st' = st\<lparr>turn_text := turn_text st @ m @ strip tx\<rparr>" "no_open m"
      by blast
    have "no_open (turn_text st @ m @ strip tx)"
      using assms(1) m(2) ok by (simp add: plain_inv_def no_open_append)
    then show ?thesis using assms(1) unfolding m(1) by (simp add: plain_inv_def)
  next
    case 3
    then have "st' = st" using assms(2) annotation_step_other [of a False nz pre st] by simp
    then show ?thesis using assms(1) by simp
  qed
qed

lemma plain_inv_turn_step:
  assumes "plain_inv st" and "turn_step False nz speakers st turn = Inr st'"
    and "\<forall>a\<in>set (iter_all turn). \<forall>tx. tail a = Some tx \<longrightarrow> CHR ''<'' \<notin> set tx"
  shows "plain_inv st'"
proof (rule turn_step_invariant [OF assms(2)])
  fix t0
  show "plain_inv (turn_start st t0)" using assms(1) by (simp add: plain_inv_def turn_start_def)
next
  fix s a s'
  assume "plain_inv s" and "a \<in> set (iter_all turn)"
    and "annotation_step False nz (turn_prefix speakers turn) s a = Inr s'"
  then show "plain_inv s'" using assms(3) plain_inv_annotation_step by blast
next
  fix s t1 s'
  assume "plain_inv s" and "emit False (turn_prefix speakers turn) t1 s = Inr s'"
  then show "plain_inv s'" by (rule plain_inv_emit)
qed

lemma plain_inv_initial: "language_plain language \<Longrightarrow> plain_inv (initial_state language)"
  by (auto simp: plain_inv_def initial_state_def header_def language_plain_def
        intro!: plain_no_marker split: option.splits)

lemma convert_state_plain:
  assumes "convert_state root language False nz = Inr st"
    and "language_plain language" and "tails_plain root"
  shows "plain_inv st"
proof -
  from assms(1) obtain speakers where
    "foldM (turn_step False nz speakers) (initial_state language) (walked_turns root) = Inr st"
    unfolding convert_state_Inr by blast
  moreover have "plain_inv (initial_state language)" using assms(2) by (rule plain_inv_initial)
  ultimately show ?thesis
  proof (rule foldM_invariant [where I = plain_inv])
    fix s turn s'
    assume "plain_inv s" and "turn \<in> set (walked_turns root)"
      and "turn_step False nz speakers s turn = Inr s'"
    then show "plain_inv s'" using assms(3) plain_inv_turn_step unfolding tails_plain_def by blast
  qed
qed

lemma no_prefix_turn_step:
  assumes "\<forall>c\<in>set (cues st). cue_prefix c = []" and "turn_step False nz speakers st turn = Inr st'"
  shows "\<forall>c\<in>set (cues st'). cue_prefix c = []"
proof -
  from turn_step_turn_inv [OF assms(2)] obtain new where "cues st' = cues st @ new"
    "\<forall>c\<in>set new. cue_prefix c = []"
    unfolding turn_inv_def by auto
  then show ?thesis using assms(1) by auto
qed

lemma convert_state_no_prefix:
  assumes "convert_state root language False nz = Inr st"
  shows "\<forall>c\<in>set (cues st). cue_prefix c = []"
proof -
  from assms obtain speakers where
    "foldM (turn_step False nz speakers) (initial_state language) (walked_turns root) = Inr st"
    unfolding convert_state_Inr by blast
  moreover have "\<forall>c\<in>set (cues (initial_state language)). cue_prefix c = []"
    by (simp add: initial_state_def)
  ultimately show ?thesis
    by (rule foldM_invariant [where I = "\<lambda>s. \<forall>c\<in>set (cues s). cue_prefix c = []"])
       (rule no_prefix_turn_step)
qed

lemma turn_prefix_turn_step:
  assumes "\<forall>c\<in>set (cues st). \<exists>turn\<in>set ts. cue_prefix c = turn_prefix speakers turn"
    and "turn \<in> set ts" and "turn_step True nz speakers st turn = Inr st'"
  shows "\<forall>c\<in>set (cues st'). \<exists>turn\<in>set ts. cue_prefix c = turn_prefix speakers turn"
proof -
  from turn_step_turn_inv [OF assms(3)] obtain new where "cues st' = cues st @ new"
    "\<forall>c\<in>set new. cue_prefix c = turn_prefix speakers turn"
    unfolding turn_inv_def by auto
  then show ?thesis using assms(1,2) by auto
qed

lemma convert_state_turn_prefix:
  assumes "convert_state root language True nz = Inr st"
  shows "\<exists>speakers. speakers_of root = Inr speakers \<and>
           (\<forall>c\<in>set (cues st). \<exists>turn\<in>set (walked_turns root).
              cue_prefix c = turn_prefix speakers turn)"
proof -
  from assms obtain speakers where sp: "speakers_of root = Inr speakers"
    and loop: "foldM (turn_step True nz speakers) (initial_state language) (walked_turns root)
                 = Inr st"
    unfolding convert_state_Inr by blast
  let ?I = "\<lambda>s. \<forall>c\<in>set (cues s). \<exists>turn\<in>set (walked_turns root).
              cue_prefix c = turn_prefix speakers turn"
  have "?I (initial_state language)" by (simp add: initial_state_def)
  with loop have "?I st"
  proof (rule foldM_invariant [where I = ?I])
    fix s turn s'
    assume "?I s" and "turn \<in> set (walked_turns root)"
      and "turn_step True nz speakers s turn = Inr s'"
    then show "?I s'" by (rule turn_prefix_turn_step)
  qed
  with sp show ?thesis by blast
qed

lemma hello_doc_walked: "walked_turns hello_doc = [hello_turn]"
  by (simp add: hello_doc_def hello_turn_def doc_eval)

lemma hello_doc_plain: "tails_plain hello_doc"
  by (simp add: tails_plain_def hello_doc_walked) (simp add: hello_turn_def)

lemma hello_turn_step:
  "turn_step True False [''spk1'' \<mapsto> ''Alice''] (initial_state (Some ''en'')) hello_turn =
     Inr \<lparr>start_time = ''2'', end_time = ''2'', turn_text = ''Hello there'',
          vtt_lines = [''WEBVTT'', ''Language: en'', [], ''00:00:02.000 --> 00:00:05.000'',
                       ''<v Alice>Hello there'', []],
          cues = [\<lparr>cue_start = ''2'', cue_end = ''5'', cue_prefix = ''<v Alice>'',
                   cue_text = ''Hello there''\<rparr>]\<rparr>"
  by (simp add: hello_turn_def initial_state_def walk_eval format_time_values strip_def
        isspace_def)

lemma marker_doc_state:
  "convert_state marker_doc None False False =
     Inr \<lparr>start_time = ''0'', end_time = ''0'', turn_text = ''<v Bob>hi'',
          vtt_lines = [''WEBVTT'', [], ''00:00:00.000 --> 00:00:01.000'', ''<v Bob>hi'', []],
          cues = [\<lparr>cue_start = ''0'', cue_end = ''1'', cue_prefix = [],
                   cue_text = ''<v Bob>hi''\<rparr>]\<rparr>"
  by (simp add: marker_doc_def walk_eval format_time_values strip_def isspace_def)

section \<open>The order of the cue times\<close>

lemma cue_times_append [simp]: "cue_times (xs @ ys) = cue_times xs @ cue_times ys"
  by (simp add: cue_times_def)

lemma cue_times_single [simp]: "cue_times [c] = [cue_start c, cue_end c]"
  by (simp add: cue_times_def)

lemma cue_times_Nil [simp]: "cue_times [] = []"
  by (simp add: cue_times_def)

lemma emit_cues:
  assumes "emit sp pre stop st = Inr st'"
  shows "\<exists>c. cues st' = cues st @ [c] \<and> cue_start c = start_time st \<and> cue_end c = stop
           \<and> start_time st' = start_time st \<and> turn_text st' = turn_text st"
  using assms unfolding emit_Inr by auto

text \<open>
  What an annotation does to the cue times and the start of the next cue: nothing, or
  (a \<open>Sync\<close> at \<open>t\<close>) it moves the start to \<open>t\<close>, after ending a cue there if there was
  text.
\<close>

lemma annotation_step_times:
  assumes "annotation_step sp nz pre st a = Inr st1"
  shows "(sync_time a = [] \<and> cues st1 = cues st \<and> start_time st1 = start_time st)
       \<or> (\<exists>t. sync_time a = [t] \<and> start_time st1 = t \<and>
             (if turn_text st = [] then cues st1 = cues st
              else \<exists>c. cues st1 = cues st @ [c] \<and> cue_start c = start_time st \<and> cue_end c = t))"
proof -
  consider "tag a = ''Sync''" | "tag a = ''Event''" | "tag a \<noteq> ''Sync''" "tag a \<noteq> ''Event''"
    by blast
  then show ?thesis
  proof cases
    case 1
    from assms obtain t tx where t: "map_of (attrib a) ''time'' = Some t"
      and res: "if turn_text st = []
         then st1 = st\<lparr>end_time := t, turn_text := strip tx, start_time := t\<rparr>
         else \<exists>st2. emit sp pre t (st\<lparr>end_time := t\<rparr>) = Inr st2 \<and>
                st1 = st2\<lparr>turn_text := strip tx, start_time := t\<rparr>"
      unfolding annotation_step_Sync [OF 1] by blast
    have st: "sync_time a = [t]" using 1 t by (rule sync_time_Some)
    show ?thesis
    proof (cases "turn_text st = []")
      case True
      then show ?thesis using res st by simp
    next
      case False
      then obtain st2 where st2: "emit sp pre t (st\<lparr>end_time := t\<rparr>) = Inr st2"
        "st1 = st2\<lparr>turn_text := strip tx, start_time := t\<rparr>"
        using res by auto
      from emit_cues [OF st2(1)] obtain c where "cues st2 = cues st @ [c]"
        "cue_start c = start_time st" "cue_end c = t"
        by auto
      then show ?thesis using False st st2(2) by simp
    qed
  next
    case 2
    then have "sync_time a = []" by (simp add: sync_time_def)
    moreover have "cues st1 = cues st \<and> start_time st1 = start_time st"
      using assms unfolding annotation_step_Event [OF 2] by (auto split: if_splits)
    ultimately show ?thesis by simp
  next
    case 3
    then have "st1 = st" using assms annotation_step_other [of a sp nz pre st] by simp
    moreover have "sync_time a = []" using 3 by (simp add: sync_time_def)
    ultimately show ?thesis by simp
  qed
qed

lemma annotation_step_sorted:
  fixes v :: "string \<Rightarrow> 'a::linorder"
  assumes "annotation_step sp nz pre st a = Inr st1"
    and "sorted (map v (cue_times (cues st) @ [start_time st] @ sync_time a @ R))"
  shows "sorted (map v (cue_times (cues st1) @ [start_time st1] @ R))"
  using annotation_step_times [OF assms(1)] assms(2)
  by (auto simp: sorted_append split: if_splits)

lemma walk_sorted:
  fixes v :: "string \<Rightarrow> 'a::linorder"
  assumes "foldM (annotation_step sp nz pre) st as = Inr st'"
    and "sorted (map v (cue_times (cues st) @ [start_time st] @ concat (map sync_time as) @ R))"
  shows "sorted (map v (cue_times (cues st') @ [start_time st'] @ R))"
  using assms
proof (induction as arbitrary: st)
  case Nil
  then show ?case by simp
next
  case (Cons a as)
  from Cons.prems(1) obtain st1 where st1: "annotation_step sp nz pre st a = Inr st1"
    "foldM (annotation_step sp nz pre) st1 as = Inr st'"
    unfolding foldM_Cons_Inr by blast
  have "sorted (map v (cue_times (cues st) @ [start_time st] @ sync_time a
                  @ (concat (map sync_time as) @ R)))"
    using Cons.prems(2) by simp
  with st1(1) have "sorted (map v (cue_times (cues st1) @ [start_time st1]
                  @ (concat (map sync_time as) @ R)))"
    by (rule annotation_step_sorted)
  then have "sorted (map v (cue_times (cues st1) @ [start_time st1]
                  @ concat (map sync_time as) @ R))"
    by simp
  with st1(2) show ?case by (rule Cons.IH)
qed

lemma turn_step_sorted:
  fixes v :: "string \<Rightarrow> 'a::linorder"
  assumes "turn_step sp nz speakers st turn = Inr st'"
    and "sorted (map v (cue_times (cues st) @ time_codes turn @ R))"
  shows "sorted (map v (cue_times (cues st') @ R))"
proof -
  let ?f = "annotation_step sp nz (turn_prefix speakers turn)"
  from assms(1) obtain t0 s1 where t0: "map_of (attrib turn) ''startTime'' = Some t0"
    and loop: "foldM ?f (turn_start st t0) (iter_all turn) = Inr s1"
    and fin: "(if turn_text s1 \<noteq> []
               then and_then (subscript (attrib turn) ''endTime'')
                      (\<lambda>t1. emit sp (turn_prefix speakers turn) t1 s1)
               else Inr s1) = Inr st'"
    unfolding turn_step_unfold and_then_eq_Inr subscript_Inr by blast
  let ?E = "case map_of (attrib turn) ''endTime'' of None \<Rightarrow> [] | Some t \<Rightarrow> [t]"
  have "sorted (map v (cue_times (cues (turn_start st t0)) @ [start_time (turn_start st t0)]
                  @ concat (map sync_time (iter_all turn)) @ (?E @ R)))"
    using assms(2) t0 by (simp add: time_codes_def turn_start_def)
  with loop have s1: "sorted (map v (cue_times (cues s1) @ [start_time s1] @ (?E @ R)))"
    by (rule walk_sorted)
  show ?thesis
  proof (cases "turn_text s1 = []")
    case True
    then have "st' = s1" using fin by simp
    then show ?thesis using s1 by (auto simp: sorted_append)
  next
    case False
    with fin obtain t1 where t1: "map_of (attrib turn) ''endTime'' = Some t1"
      "emit sp (turn_prefix speakers turn) t1 s1 = Inr st'"
      by (auto simp: and_then_eq_Inr subscript_Inr)
    from emit_cues [OF t1(2)] obtain c where "cues st' = cues s1 @ [c]"
      "cue_start c = start_time s1" "cue_end c = t1"
      by auto
    then show ?thesis using s1 t1(1) by simp
  qed
qed

lemma turns_sorted:
  fixes v :: "string \<Rightarrow> 'a::linorder"
  assumes "foldM (turn_step sp nz speakers) st ts = Inr st'"
    and "sorted (map v (cue_times (cues st) @ concat (map time_codes ts)))"
  shows "sorted (map v (cue_times (cues st')))"
  using assms
proof (induction ts arbitrary: st)
  case Nil
  then show ?case by simp
next
  case (Cons turn ts)
  from Cons.prems(1) obtain st1 where st1: "turn_step sp nz speakers st turn = Inr st1"
    "foldM (turn_step sp nz speakers) st1 ts = Inr st'"
    unfolding foldM_Cons_Inr by blast
  have "sorted (map v (cue_times (cues st) @ time_codes turn @ concat (map time_codes ts)))"
    using Cons.prems(2) by simp
  with st1(1) have "sorted (map v (cue_times (cues st1) @ concat (map time_codes ts)))"
    by (rule turn_step_sorted)
  with st1(2) show ?case by (rule Cons.IH)
qed

lemma convert_state_sorted:
  fixes v :: "string \<Rightarrow> 'a::linorder"
  assumes "convert_state root language sp nz = Inr st"
    and "sorted (map v (doc_time_codes root))"
  shows "sorted (map v (cue_times (cues st)))"
proof -
  from assms(1) obtain speakers where
    "foldM (turn_step sp nz speakers) (initial_state language) (walked_turns root) = Inr st"
    unfolding convert_state_Inr by blast
  moreover have "sorted (map v (cue_times (cues (initial_state language))
                   @ concat (map time_codes (walked_turns root))))"
    using assms(2) by (simp add: initial_state_def doc_time_codes_def)
  ultimately show ?thesis by (rule turns_sorted)
qed

lemma sorted_cue_times:
  fixes v :: "string \<Rightarrow> 'a::linorder"
  assumes "sorted (map v (cue_times cs))"
  shows "(\<forall>c\<in>set cs. v (cue_start c) \<le> v (cue_end c))
       \<and> successively (\<lambda>c d. v (cue_end c) \<le> v (cue_start d)) cs"
  using assms
proof (induction cs)
  case Nil
  then show ?case by simp
next
  case (Cons c cs)
  have tl: "sorted (map v (cue_times cs))"
    using Cons.prems by (simp add: cue_times_def)
  have hd: "v (cue_start c) \<le> v (cue_end c)" using Cons.prems by (simp add: cue_times_def)
  have "cs \<noteq> [] \<longrightarrow> v (cue_end c) \<le> v (cue_start (hd cs))"
    using Cons.prems by (cases cs) (simp_all add: cue_times_def)
  then show ?case using Cons.IH [OF tl] hd by (auto simp: successively_Cons)
qed

section \<open>The limits of \<open>format_time\<close>\<close>

text \<open>
  A number whose duration is outside the range of \<open>timedelta\<close> raises \<open>OverflowError\<close>.
\<close>

lemma format_time_overflow:
  assumes "float_of_str time = Inr (Finite n k)" and "\<not> representable (to_microseconds n k)"
  shows "format_time time = Inl OverflowError"
proof -
  have "999999999 < \<bar>days (normalize (to_microseconds n k))\<bar>"
    using assms(2) days_representable [of "to_microseconds n k"] by blast
  then have "timedelta_of_seconds (Finite n k) = Inl OverflowError"
    by (simp add: timedelta_of_seconds_def Let_def)
  with assms(1) show ?thesis by (simp add: format_time_def)
qed

text \<open>
  The doubles next to the two ends of the range. \<open>86399999999999.999999\<close> is rounded up
  to \<open>86400000000000\<close>, which is 1000000000 days; \<open>-86399999913600.001\<close> is rounded to
  \<open>-86399999913600\<close>, which is -999999999 days.
\<close>

lemma float_of_str_upper:
  "float_of_str ''86399999999999.999999'' = Inr (Finite 5529600000000000 (- 6))"
  by (simp add: float_eval)

lemma float_of_str_lower:
  "float_of_str ''-86399999913600.001'' = Inr (Finite (- 5529599994470400) (- 6))"
  by (simp add: float_eval)

lemma float_of_str_below:
  "float_of_str ''-86399999913601'' = Inr (Finite (- 5529599994470464) (- 6))"
  by (simp add: float_eval)

lemma format_time_upper: "format_time ''86399999999999.999999'' = Inl OverflowError"
  using format_time_overflow [OF float_of_str_upper]
  by (simp add: to_microseconds_def representable_def)

lemma format_time_below: "format_time ''-86399999913601'' = Inl OverflowError"
  using format_time_overflow [OF float_of_str_below]
  by (simp add: to_microseconds_def representable_def)

lemma format_time_lower: "format_time ''-86399999913600.001'' = Inr ''0-999999999 .000''"
  using format_time_finite [OF float_of_str_lower] by (simp add: format_num)

text \<open>
  The whitespace of \<open>float\<close>: a separator \<open>0x1C\<close> is not stripped, a no-break space
  \<open>0xA0\<close> and a next-line character \<open>0x85\<close> are.
\<close>

lemma format_time_separator: "format_time [CHR 0x1C, CHR ''1''] = Inl ValueError"
  by (simp add: format_time_def float_eval)

lemma format_time_nbsp: "format_time [CHR 0xA0, CHR ''1'', CHR 0x85] = Inr ''00:00:01.000''"
  using format_time_finite [of "[CHR 0xA0, CHR ''1'', CHR 0x85]" 4503599627370496 "- 52"]
  by (simp add: format_num)

lemma format_time_nan: "format_time ''nan'' = Inl ValueError"
  by (simp add: format_time_def float_eval timedelta_of_seconds_def)

lemma format_time_inf: "format_time ''inf'' = Inl OverflowError"
  by (simp add: format_time_def float_eval timedelta_of_seconds_def)

section \<open>Annotations without a tail that do not end in \<open>AttributeError\<close>\<close>

lemma stray_doc_state: "convert stray_doc None False False = Inr (''WEBVTT'' @ [CHR 0x0A])"
  by (simp add: stray_doc_def walk_eval)

lemma stray_doc_walked: "walked_turns stray_doc = []"
  by (simp add: stray_doc_def doc_eval)

lemma inf_doc_state: "convert inf_doc None False False = Inl OverflowError"
  by (simp add: inf_doc_def inf_turn_def walk_eval format_time_values format_time_inf strip_def
        isspace_def)

lemma inf_doc_walked: "walked_turns inf_doc = [inf_turn]"
  by (simp add: inf_doc_def inf_turn_def doc_eval)

section \<open>Cues that follow each other in a turn\<close>

lemma chain_inv_start: "chain_inv st (turn_start st t0)"
  by (simp add: chain_inv_def turn_start_def)

lemma annotation_step_keeps_text:
  assumes "annotation_step sp nz pre st a = Inr st1" and "turn_text st \<noteq> []"
    and "tag a = ''Sync'' \<longrightarrow> (\<exists>tx. tail a = Some tx \<and> \<not> blank tx)"
  shows "turn_text st1 \<noteq> []"
proof -
  consider "tag a = ''Sync''" | "tag a = ''Event''" | "tag a \<noteq> ''Sync''" "tag a \<noteq> ''Event''"
    by blast
  then show ?thesis
  proof cases
    case 1
    then obtain tx where "tail a = Some tx" "\<not> blank tx" using assms(3) by blast
    then show ?thesis using assms(1) 1 annotation_step_text by blast
  next
    case 2
    then show ?thesis
      using assms(1,2) unfolding annotation_step_Event [OF 2] by (auto split: if_splits)
  next
    case 3
    then show ?thesis using assms(1,2) annotation_step_other [of a sp nz pre st] by simp
  qed
qed

lemma chain_inv_annotation_step:
  assumes "chain_inv st0 st" and "annotation_step sp nz pre st a = Inr st1"
    and "tag a = ''Sync'' \<longrightarrow> (\<exists>tx. tail a = Some tx \<and> \<not> blank tx)"
  shows "chain_inv st0 st1"
proof -
  from assms(1) obtain new where new: "cues st = cues st0 @ new"
    "successively (\<lambda>c d. cue_end c = cue_start d) new"
    "new \<noteq> [] \<longrightarrow> cue_end (last new) = start_time st \<and> turn_text st \<noteq> []"
    unfolding chain_inv_def by blast
  from annotation_step_times [OF assms(2)] show ?thesis
  proof (elim disjE conjE exE)
    assume same: "cues st1 = cues st" "start_time st1 = start_time st"
    have "new \<noteq> [] \<longrightarrow> turn_text st1 \<noteq> []"
      using new(3) assms(2,3) annotation_step_keeps_text by blast
    then show ?thesis using new same unfolding chain_inv_def by auto
  next
    fix t
    assume t: "sync_time a = [t]" "start_time st1 = t"
      and res: "if turn_text st = [] then cues st1 = cues st
              else \<exists>c. cues st1 = cues st @ [c] \<and> cue_start c = start_time st \<and> cue_end c = t"
    have sync: "tag a = ''Sync''" using t(1) by (auto simp: sync_time_def split: if_splits)
    then obtain tx where "tail a = Some tx" "\<not> blank tx" using assms(3) by blast
    then have text1: "turn_text st1 \<noteq> []" using assms(2) sync annotation_step_text by blast
    show ?thesis
    proof (cases "turn_text st = []")
      case True
      then have "new = []" using new(3) by blast
      then show ?thesis using res True new(1) unfolding chain_inv_def by simp
    next
      case False
      then obtain c where c: "cues st1 = cues st @ [c]" "cue_start c = start_time st"
        "cue_end c = t"
        using res by auto
      have "cues st1 = cues st0 @ (new @ [c])" using c(1) new(1) by simp
      moreover have "successively (\<lambda>c d. cue_end c = cue_start d) (new @ [c])"
        using new(2,3) c(2) by (auto simp: successively_append_iff)
      moreover have "cue_end (last (new @ [c])) = start_time st1 \<and> turn_text st1 \<noteq> []"
        using c(3) t(2) text1 by simp
      ultimately show ?thesis unfolding chain_inv_def by blast
    qed
  qed
qed

lemma turn_step_chain:
  assumes "turn_step sp nz speakers st turn = Inr st'" and "syncs_have_text turn"
  shows "\<exists>new. cues st' = cues st @ new \<and> successively (\<lambda>c d. cue_end c = cue_start d) new"
proof -
  let ?f = "annotation_step sp nz (turn_prefix speakers turn)"
  from assms(1) obtain t0 s1 where loop: "foldM ?f (turn_start st t0) (iter_all turn) = Inr s1"
    and fin: "(if turn_text s1 \<noteq> []
               then and_then (subscript (attrib turn) ''endTime'')
                      (\<lambda>t1. emit sp (turn_prefix speakers turn) t1 s1)
               else Inr s1) = Inr st'"
    unfolding turn_step_unfold and_then_eq_Inr by blast
  have "chain_inv st s1"
    using loop chain_inv_start
  proof (rule foldM_invariant [where I = "chain_inv st"])
    fix s a s'
    assume "chain_inv st s" and "a \<in> set (iter_all turn)" and "?f s a = Inr s'"
    then show "chain_inv st s'"
      using assms(2) chain_inv_annotation_step unfolding syncs_have_text_def by blast
  qed
  then obtain new where new: "cues s1 = cues st @ new"
    "successively (\<lambda>c d. cue_end c = cue_start d) new"
    "new \<noteq> [] \<longrightarrow> cue_end (last new) = start_time s1"
    unfolding chain_inv_def by blast
  show ?thesis
  proof (cases "turn_text s1 = []")
    case True
    then have "st' = s1" using fin by simp
    then show ?thesis using new by blast
  next
    case False
    with fin obtain t1 where "emit sp (turn_prefix speakers turn) t1 s1 = Inr st'"
      by (auto simp: and_then_eq_Inr)
    from emit_cues [OF this] obtain c where c: "cues st' = cues s1 @ [c]"
      "cue_start c = start_time s1"
      by auto
    have "cues st' = cues st @ (new @ [c])" using c(1) new(1) by simp
    moreover have "successively (\<lambda>c d. cue_end c = cue_start d) (new @ [c])"
      using new(2,3) c(2) by (auto simp: successively_append_iff)
    ultimately show ?thesis by blast
  qed
qed

lemmas micros_eval = time_micros_def float_eval to_microseconds_def

lemma gap_doc_state:
  "convert_state gap_doc None False False =
     Inr \<lparr>start_time = ''3'', end_time = ''3'', turn_text = ''b'',
          vtt_lines = [''WEBVTT'', [], ''00:00:01.000 --> 00:00:02.000'', ''a'', [],
                       ''00:00:03.000 --> 00:00:04.000'', ''b'', []],
          cues = [\<lparr>cue_start = ''1'', cue_end = ''2'', cue_prefix = [], cue_text = ''a''\<rparr>,
                  \<lparr>cue_start = ''3'', cue_end = ''4'', cue_prefix = [], cue_text = ''b''\<rparr>]\<rparr>"
  by (simp add: gap_doc_def gap_turn_def walk_eval format_time_values strip_def isspace_def)

lemma gap_doc_codes: "doc_time_codes gap_doc = [''0'', ''1'', ''2'', ''3'', ''4'']"
  by (simp add: doc_time_codes_def gap_doc_def gap_turn_def doc_eval)

lemma micros_values:
  "time_micros ''0'' = 0" "time_micros ''1'' = 1000000" "time_micros ''2'' = 2000000"
  "time_micros ''3'' = 3000000" "time_micros ''4'' = 4000000"
  by (simp_all add: micros_eval)

text \<open>
  The rounding at work: \<open>0.1\<close> is read as the double next to it. The double read for
  \<open>0.0000025\<close> lies above that number, but its product with \<open>10^6\<close> is rounded to the
  double \<open>2.5\<close>, a tie, which goes to the even two microseconds.
\<close>

lemma float_of_str_tenth: "float_of_str ''0.1'' = Inr (Finite 7205759403792794 (- 56))"
  by (simp add: float_eval)

lemma time_micros_tie: "time_micros ''0.0000025'' = 2"
  by (simp add: micros_eval)

lemma time_micros_long: "time_micros ''1.23456789'' = 1234568"
  by (simp add: micros_eval)

lemma chain_turn_step:
  "turn_step False False Map.empty (initial_state None) chain_turn =
     Inr \<lparr>start_time = ''2'', end_time = ''2'', turn_text = ''b'',
          vtt_lines = [''WEBVTT'', [], ''00:00:01.000 --> 00:00:02.000'', ''a'', [],
                       ''00:00:02.000 --> 00:00:03.000'', ''b'', []],
          cues = [\<lparr>cue_start = ''1'', cue_end = ''2'', cue_prefix = [], cue_text = ''a''\<rparr>,
                  \<lparr>cue_start = ''2'', cue_end = ''3'', cue_prefix = [], cue_text = ''b''\<rparr>]\<rparr>"
  by (simp add: chain_turn_def initial_state_def walk_eval format_time_values strip_def
        isspace_def)

lemma chain_turn_text: "syncs_have_text chain_turn"
  by (simp add: syncs_have_text_def chain_turn_def blank_def strip_def isspace_def)

lemma gap_doc_walked: "walked_turns gap_doc = [gap_turn]"
  by (simp add: gap_doc_def gap_turn_def doc_eval)

section \<open>The end-to-end example\<close>

text \<open>
  C1, as amended. On \<open>hello_doc\<close>, with an empty language tag and both flags off, \<open>convert\<close>
  produces the lines \<open>WEBVTT\<close>, blank, \<open>00:00:02.000 --> 00:00:05.000\<close>, \<open>Hello there\<close>,
  blank: the single cue starts at the \<open>Sync\<close> time 2, because line 104 sets
  \<open>start_time = end_time\<close> at every \<open>Sync\<close>, whether or not a cue was written.
\<close>

theorem hello_doc_output:
  "convert_lines hello_doc (Some []) False False =
     Inr [''WEBVTT'', [], ''00:00:02.000 --> 00:00:05.000'', ''Hello there'', []]
   \<and> convert hello_doc (Some []) False False =
     Inr (''WEBVTT'' @ [CHR 0x0A, CHR 0x0A] @ ''00:00:02.000 --> 00:00:05.000'' @ [CHR 0x0A]
          @ ''Hello there'' @ [CHR 0x0A])"
  by (simp add: convert_def convert_lines_def and_then_def hello_doc_state)

text \<open>
  C1 as the spec states it fails: the lines are not the ones with the cue starting at
  the turn's \<open>startTime\<close> 0.
\<close>

theorem hello_doc_not_from_turn_start:
  "convert_lines hello_doc (Some []) False False \<noteq>
     Inr [''WEBVTT'', [], ''00:00:00.000 --> 00:00:05.000'', ''Hello there'', []]"
  by (simp add: convert_lines_def and_then_def hello_doc_state)

section \<open>The fractional digits of a formatted time\<close>

text \<open>
  C4, as amended. Whatever the time code, also one with more than three fractional
  digits, \<open>format_time\<close> returns at most three characters behind the point: the slice
  \<open>[:11]\<close> of line 17 cuts a long fraction short, as on \<open>1.0625\<close>.
\<close>

theorem format_time_truncates:
  "(format_time time = Inr out \<longrightarrow> length (fraction_part out) \<le> 3)
   \<and> format_time ''1.0625'' = Inr ''00:00:01.062''"
  using format_time_fraction_le format_time_1_0625 by blast

theorem format_time_truncates_witness:
  "format_time ''1.0625'' = Inr ''00:00:01.062''
   \<and> length (fraction_part ''1.0625'') = 4
   \<and> length (fraction_part ''00:00:01.062'') \<le> 3"
  using format_time_truncates [of "''1.0625''" "''00:00:01.062''"]
  by (simp add: fraction_part_def)

text \<open>
  C4 as the spec states it fails: no time code with more than three fractional digits
  gives an output with more than three.
\<close>

theorem no_long_fraction:
  "\<not> (\<exists>time out. 3 < length (fraction_part time) \<and> format_time time = Inr out
        \<and> 3 < length (fraction_part out))"
  using format_time_fraction_le by fastforce

section \<open>Cue texts\<close>

text \<open>
  C6. Whenever \<open>convert\<close> succeeds, its lines are the header followed by the three
  lines of each cue written, and no cue has a text that is empty after trimming; so
  the text line of a cue, with or without the speaker prefix, is not blank either.
\<close>

theorem cue_text_not_blank:
  assumes "convert_state root language add_speakers preserve_noise = Inr st"
  shows "convert_lines root language add_speakers preserve_noise
           = Inr (header language @ concat (map cue_block (cues st)))
         \<and> (\<forall>c\<in>set (cues st).
               strip (cue_text c) \<noteq> [] \<and> strip (cue_prefix c @ cue_text c) \<noteq> [])"
proof -
  have inv: "doc_inv language st" using assms by (rule convert_state_doc_inv)
  then have "convert_lines root language add_speakers preserve_noise
           = Inr (header language @ concat (map cue_block (cues st)))"
    using assms by (simp add: convert_lines_def doc_inv_def)
  moreover have "\<forall>c\<in>set (cues st).
      strip (cue_text c) \<noteq> [] \<and> strip (cue_prefix c @ cue_text c) \<noteq> []"
    using inv by (simp add: doc_inv_def strip_Nil_blank)
  ultimately show ?thesis by blast
qed

theorem cue_text_not_blank_witness:
  "convert_lines hello_doc (Some []) False False
     = Inr ([''WEBVTT'', []] @ [''00:00:02.000 --> 00:00:05.000'', ''Hello there'', []])
   \<and> strip ''Hello there'' \<noteq> []"
  using cue_text_not_blank [OF hello_doc_state]
  by (simp add: header_def cue_block_def generate_timestamp_def format_time_values)

section \<open>The header\<close>

text \<open>
  C9, as amended. Whenever \<open>convert\<close> succeeds: with no language tag, or an empty one,
  the lines are \<open>WEBVTT\<close>, a blank line and the cue blocks, so the header has no
  \<open>Language:\<close> line; with a tag that is not empty the lines are \<open>WEBVTT\<close>, then
  \<open>Language: \<close> followed by the tag, then the blank line, then the cue blocks.
\<close>

theorem header_lines:
  assumes "convert_lines root language add_speakers preserve_noise = Inr ls"
  shows "(language = None \<or> language = Some [] \<longrightarrow>
            (\<exists>cs. ls = [''WEBVTT'', []] @ concat (map cue_block cs)))
       \<and> (\<forall>l. language = Some l \<and> l \<noteq> [] \<longrightarrow>
            (\<exists>cs. ls = [''WEBVTT'', ''Language: '' @ l, []] @ concat (map cue_block cs)))"
proof -
  from assms obtain st where
    st: "convert_state root language add_speakers preserve_noise = Inr st" "ls = vtt_lines st"
    unfolding convert_lines_Inr by blast
  have "ls = header language @ concat (map cue_block (cues st))"
    using convert_state_doc_inv [OF st(1)] st(2) by (simp add: doc_inv_def)
  then show ?thesis by (auto simp: header_def)
qed

theorem header_lines_witness:
  "(\<exists>cs. [''WEBVTT'', ''Language: en'', [], ''00:00:02.000 --> 00:00:05.000'',
           ''<v Alice>Hello there'', []]
          = [''WEBVTT'', ''Language: en'', []] @ concat (map cue_block cs))
   \<and> (\<exists>cs. [''WEBVTT'', [], ''00:00:00.000 --> 00:00:01.000'', ''Language: en'', []]
          = [''WEBVTT'', []] @ concat (map cue_block cs))"
  using header_lines [of hello_doc "Some ''en''" True False
      "[''WEBVTT'', ''Language: en'', [], ''00:00:02.000 --> 00:00:05.000'',
        ''<v Alice>Hello there'', []]"]
    header_lines [of language_doc None False False
      "[''WEBVTT'', [], ''00:00:00.000 --> 00:00:01.000'', ''Language: en'', []]"]
  by (simp add: convert_lines_def hello_doc_en_state language_doc_state)

text \<open>
  C9 as the spec states it fails: with no language tag the output of \<open>language_doc\<close> has
  a line that begins with \<open>Language:\<close>, the text of its cue.
\<close>

theorem language_line_without_tag:
  "\<not> (\<forall>ls. convert_lines language_doc None False False = Inr ls
          \<longrightarrow> (\<forall>l\<in>set ls. \<not> prefix ''Language:'' l))"
  by (simp add: convert_lines_def language_doc_state)

section \<open>Annotations without a tail\<close>

text \<open>
  C10, as amended. If a \<open>Sync\<close> or an \<open>Event\<close> that the walk reaches (an element below a
  turn of a section of the episode) has no tail, \<open>convert\<close> fails, so it succeeds only
  when every such element has one; and the exception is \<open>AttributeError\<close> (from
  \<open>None.strip()\<close>) when nothing else is wrong with the document, that is, when no
  attribute or event code is missing and every time code can be formatted.
\<close>

theorem missing_tail_fails:
  assumes "turn \<in> set (walked_turns root)" and "a \<in> set (iter_all turn)"
    and "tag a = ''Sync'' \<or> tag a = ''Event''" and "tail a = None"
  shows "(\<exists>e. convert root language add_speakers preserve_noise = Inl e)
       \<and> (keys_ok root \<and> (preserve_noise \<longrightarrow> codes_ok root) \<and> times_ok root
            \<longrightarrow> convert root language add_speakers preserve_noise = Inl AttributeError)"
proof -
  have fails: "\<exists>e. convert_state root language add_speakers preserve_noise = Inl e"
  proof (cases "convert_state root language add_speakers preserve_noise")
    case (Inl e)
    then show ?thesis by blast
  next
    case (Inr st)
    from convert_state_steps [OF Inr assms(1,2)] obtain pre s s'
      where "annotation_step add_speakers preserve_noise pre s a = Inr s'"
      by blast
    then have "tail a \<noteq> None" using assms(3) by (rule annotation_step_needs_tail)
    then show ?thesis using assms(4) by simp
  qed
  then obtain e where e: "convert_state root language add_speakers preserve_noise = Inl e"
    by blast
  have "keys_ok root \<and> (preserve_noise \<longrightarrow> codes_ok root) \<and> times_ok root
           \<longrightarrow> e = AttributeError"
    using convert_state_error [OF e] by auto
  then show ?thesis using e by (auto simp: convert_Inl)
qed

theorem missing_tail_fails_witness:
  "convert no_tail_doc None False False = Inl AttributeError
   \<and> no_tail_turn \<in> set (walked_turns no_tail_doc)
   \<and> Element ''Sync'' [(''time'', ''0'')] None [] \<in> set (iter_all no_tail_turn)
   \<and> keys_ok no_tail_doc \<and> times_ok no_tail_doc"
proof -
  have t: "no_tail_turn \<in> set (walked_turns no_tail_doc)" by (simp add: no_tail_doc_walked)
  have a: "Element ''Sync'' [(''time'', ''0'')] None [] \<in> set (iter_all no_tail_turn)"
    by (simp add: no_tail_turn_def)
  have "tag (Element ''Sync'' [(''time'', ''0'')] None []) = ''Sync''
          \<or> tag (Element ''Sync'' [(''time'', ''0'')] None []) = ''Event''"
    by simp
  moreover have "tail (Element ''Sync'' [(''time'', ''0'')] None []) = None" by simp
  ultimately show ?thesis
    using missing_tail_fails [OF t a, of None False False] t a no_tail_doc_ok by simp
qed

text \<open>
  C10 as the spec states it fails, in two ways. A \<open>Sync\<close> without a tail that stands
  outside every turn is never visited: the document that holds one in its section and
  has no turn is converted, to the header alone. And below a turn another exception
  can come first: when text is pending, a \<open>Sync\<close> writes the cue before it reads its
  tail, so the \<open>Sync\<close> without a tail whose time code is \<open>inf\<close> ends the conversion with
  the \<open>OverflowError\<close> of \<open>timedelta\<close>.
\<close>

theorem missing_tail_other_outcomes:
  "Element ''Sync'' [(''time'', ''0'')] None [] \<in> set (iter_all stray_doc)
   \<and> walked_turns stray_doc = []
   \<and> convert stray_doc None False False = Inr (''WEBVTT'' @ [CHR 0x0A])
   \<and> inf_turn \<in> set (walked_turns inf_doc)
   \<and> Element ''Sync'' [(''time'', ''inf'')] None [] \<in> set (iter_all inf_turn)
   \<and> convert inf_doc None False False = Inl OverflowError"
  by (simp add: stray_doc_state stray_doc_walked inf_doc_state inf_doc_walked)
     (simp add: stray_doc_def inf_turn_def)

section \<open>Event codes outside the noise table\<close>

text \<open>
  C7. With noise preservation on, \<open>convert\<close> fails when the walk reaches an \<open>Event\<close>
  whose \<open>desc\<close> is not one of the nine codes of the table, and the exception is the
  \<open>KeyError\<close> of the lookup when nothing else is wrong with the document. With noise
  preservation off the codes are never looked up: a document that is otherwise in order
  is converted whatever its event codes are.
\<close>

theorem unknown_event_code:
  "(turn \<in> set (walked_turns root) \<and> a \<in> set (iter_all turn) \<and> tag a = ''Event''
      \<and> map_of (attrib a) ''desc'' = Some d
      \<and> d \<notin> set [''COUGH'', ''EE-HESITATION'', ''LAUGHTER'', ''LIP_SMACK'', ''LOUD_BREATH'',
                  ''NOISE'', ''SILENCE'', ''UH-HUH'', ''UNINTELLIGIBLE'']
      \<longrightarrow> (\<exists>e. convert root language add_speakers True = Inl e)
        \<and> (keys_ok root \<and> tails_ok root \<and> times_ok root
             \<longrightarrow> convert root language add_speakers True = Inl KeyError))
   \<and> (keys_ok root \<and> tails_ok root \<and> times_ok root
        \<longrightarrow> (\<exists>out. convert root language add_speakers False = Inr out))"
proof (intro conjI impI)
  assume h: "turn \<in> set (walked_turns root) \<and> a \<in> set (iter_all turn) \<and> tag a = ''Event''
      \<and> map_of (attrib a) ''desc'' = Some d
      \<and> d \<notin> set [''COUGH'', ''EE-HESITATION'', ''LAUGHTER'', ''LIP_SMACK'', ''LOUD_BREATH'',
                  ''NOISE'', ''SILENCE'', ''UH-HUH'', ''UNINTELLIGIBLE'']"
  then have none: "map_of noise d = None" using noise_codes by blast
  have fails: "\<exists>e. convert_state root language add_speakers True = Inl e"
  proof (cases "convert_state root language add_speakers True")
    case (Inl e)
    then show ?thesis by blast
  next
    case (Inr st)
    from convert_state_steps [OF Inr, of turn a] h obtain pre s s'
      where "annotation_step add_speakers True pre s a = Inr s'"
      by blast
    then have "\<exists>d m. map_of (attrib a) ''desc'' = Some d \<and> map_of noise d = Some m"
      using h annotation_step_Event [of a add_speakers True pre s s'] by auto
    then show ?thesis using h none by auto
  qed
  then show "\<exists>e. convert root language add_speakers True = Inl e" by (simp add: convert_Inl)
  assume "keys_ok root \<and> tails_ok root \<and> times_ok root"
  then show "convert root language add_speakers True = Inl KeyError"
    using fails convert_state_error [of root language add_speakers True]
    by (auto simp: convert_Inl)
next
  assume "keys_ok root \<and> tails_ok root \<and> times_ok root"
  then have "\<exists>st. convert_state root language add_speakers False = Inr st"
    using convert_state_total [of root False language add_speakers] by simp
  then show "\<exists>out. convert root language add_speakers False = Inr out"
    by (auto simp: convert_Inr)
qed

theorem unknown_event_code_witness:
  "convert music_doc None False True = Inl KeyError
   \<and> convert music_doc None False False
       = Inr (''WEBVTT'' @ [CHR 0x0A, CHR 0x0A] @ ''00:00:00.000 --> 00:00:01.000''
              @ [CHR 0x0A] @ ''xy'' @ [CHR 0x0A])
   \<and> music_turn \<in> set (walked_turns music_doc)
   \<and> keys_ok music_doc \<and> tails_ok music_doc \<and> times_ok music_doc"
  using unknown_event_code [of music_turn music_doc
      "Element ''Event'' [(''desc'', ''MUSIC'')] (Some ''y'') []" "''MUSIC''" None False]
    music_doc_ok music_doc_walked
  by (simp add: music_turn_def convert_def convert_lines_def music_doc_state)

section \<open>Failure of \<open>format_time\<close>\<close>

text \<open>
  C5, as amended. \<open>format_time\<close> fails exactly when \<open>float\<close> rejects the time code, or
  the number it reads is not a number or infinite, or the duration \<open>timedelta\<close> rounds
  the number to is outside its range, which is what \<open>representable\<close> says of the
  microseconds: from -999999999 days on and below 1000000000 days. The sign plays no
  part: a negative number whose duration is inside the range does not fail, a string is
  returned for it. A failure is not caught anywhere: a conversion that succeeds has
  formatted both time codes of every cue it wrote, and a conversion fails when a turn
  that ends in text (its last annotation has a tail that is not blank) has an
  \<open>endTime\<close> that \<open>format_time\<close> rejects.
\<close>

theorem format_time_failure:
  "((\<exists>e. format_time time = Inl e) \<longleftrightarrow>
      (case float_of_str time of
         Inl e \<Rightarrow> True
       | Inr x \<Rightarrow> (case x of
           Finite n k \<Rightarrow> \<not> representable (to_microseconds n k)
         | _ \<Rightarrow> True)))
   \<and> (float_of_str time = Inr (Finite n k) \<and> n < 0 \<and> representable (to_microseconds n k)
        \<longrightarrow> (\<exists>out. format_time time = Inr out))
   \<and> (convert_state root language add_speakers preserve_noise = Inr st
        \<longrightarrow> (\<forall>c\<in>set (cues st). \<exists>a b. format_time (cue_start c) = Inr a
                                       \<and> format_time (cue_end c) = Inr b))
   \<and> (turn \<in> set (walked_turns root) \<and> iter_all turn = pre @ [a]
        \<and> (tag a = ''Sync'' \<or> tag a = ''Event'') \<and> tail a = Some tx \<and> \<not> blank tx
        \<and> map_of (attrib turn) ''endTime'' = Some t1 \<and> format_time t1 = Inl e
        \<longrightarrow> (\<exists>e'. convert root language add_speakers preserve_noise = Inl e'))"
proof (intro conjI impI)
  show "(\<exists>e. format_time time = Inl e) \<longleftrightarrow>
      (case float_of_str time of
         Inl e \<Rightarrow> True
       | Inr x \<Rightarrow> (case x of
           Finite n k \<Rightarrow> \<not> representable (to_microseconds n k)
         | _ \<Rightarrow> True))"
    by (rule format_time_fails_iff)
next
  assume "float_of_str time = Inr (Finite n k) \<and> n < 0 \<and> representable (to_microseconds n k)"
  then have "\<not> (\<exists>e. format_time time = Inl e)" by (simp add: format_time_fails_iff)
  then show "\<exists>out. format_time time = Inr out" using format_time_total [of time] by blast
next
  assume "convert_state root language add_speakers preserve_noise = Inr st"
  then have "doc_inv language st" by (rule convert_state_doc_inv)
  then show "\<forall>c\<in>set (cues st). \<exists>a b. format_time (cue_start c) = Inr a
                                       \<and> format_time (cue_end c) = Inr b"
    unfolding doc_inv_def generate_timestamp_Inr by blast
next
  assume h: "turn \<in> set (walked_turns root) \<and> iter_all turn = pre @ [a]
        \<and> (tag a = ''Sync'' \<or> tag a = ''Event'') \<and> tail a = Some tx \<and> \<not> blank tx
        \<and> map_of (attrib turn) ''endTime'' = Some t1 \<and> format_time t1 = Inl e"
  have "\<exists>e'. convert_state root language add_speakers preserve_noise = Inl e'"
  proof (cases "convert_state root language add_speakers preserve_noise")
    case (Inl e')
    then show ?thesis by blast
  next
    case (Inr st)
    from convert_state_turn_steps [OF Inr, of turn] h obtain speakers s s'
      where "turn_step add_speakers preserve_noise speakers s turn = Inr s'"
      by blast
    then have "\<exists>out. format_time t1 = Inr out"
      using h turn_step_formats_end [of add_speakers preserve_noise speakers s turn s' pre a tx t1]
      by blast
    then show ?thesis using h by simp
  qed
  then show "\<exists>e'. convert root language add_speakers preserve_noise = Inl e'"
    by (simp add: convert_Inl)
qed

text \<open>
  The theorem at work: on \<open>abc\<close>, which \<open>float\<close> rejects; on \<open>-1\<close>; at the two ends of
  the range, where \<open>-86399999913600.001\<close> is read as the double \<open>-86399999913600\<close>, the
  least number of seconds that is formatted, and \<open>86399999999999.999999\<close> as the double
  \<open>86400000000000\<close>, the least positive one that is not; on the cue of the first
  example; and on a document whose turn has the \<open>endTime\<close> \<open>abc\<close>.
\<close>

theorem format_time_failure_witness:
  "format_time ''abc'' = Inl ValueError
   \<and> float_of_str ''-1'' = Inr (Finite (- 4503599627370496) (- 52))
   \<and> (\<exists>out. format_time ''-1'' = Inr out)
   \<and> float_of_str ''-86399999913600.001'' = Inr (Finite (- 5529599994470400) (- 6))
   \<and> (\<exists>out. format_time ''-86399999913600.001'' = Inr out)
   \<and> float_of_str ''-86399999913601'' = Inr (Finite (- 5529599994470464) (- 6))
   \<and> (\<exists>e. format_time ''-86399999913601'' = Inl e)
   \<and> float_of_str ''86399999999999.999999'' = Inr (Finite 5529600000000000 (- 6))
   \<and> (\<exists>e. format_time ''86399999999999.999999'' = Inl e)
   \<and> (\<exists>a b. format_time ''2'' = Inr a \<and> format_time ''5'' = Inr b)
   \<and> bad_end_turn \<in> set (walked_turns bad_end_doc)
   \<and> (\<exists>e. convert bad_end_doc None False False = Inl e)"
proof -
  have neg: "float_of_str ''-1'' = Inr (Finite (- 4503599627370496) (- 52))
               \<and> (- 4503599627370496 :: int) < 0
               \<and> representable (to_microseconds (- 4503599627370496) (- 52))"
    by (simp add: float_eval to_microseconds_def representable_def)
  have low: "(- 5529599994470400 :: int) < 0
               \<and> representable (to_microseconds (- 5529599994470400) (- 6))"
    by (simp add: to_microseconds_def representable_def)
  have below: "\<not> representable (to_microseconds (- 5529599994470464) (- 6))"
    by (simp add: to_microseconds_def representable_def)
  have upper: "\<not> representable (to_microseconds 5529600000000000 (- 6))"
    by (simp add: to_microseconds_def representable_def)
  have abc: "float_of_str ''abc'' = Inl ValueError" by (simp add: float_eval)
  have turn: "bad_end_turn \<in> set (walked_turns bad_end_doc)
      \<and> iter_all bad_end_turn = [bad_end_turn] @ [Element ''Sync'' [(''time'', ''0'')] (Some ''x'') []]
      \<and> \<not> blank ''x'' \<and> map_of (attrib bad_end_turn) ''endTime'' = Some ''abc''"
    by (simp add: bad_end_doc_walked bad_end_turn_def blank_def strip_def isspace_def)
  note inst = format_time_failure [where time = "''-1''" and n = "- 4503599627370496"
      and k = "- 52" and root = hello_doc and language = "Some []" and add_speakers = False
      and preserve_noise = False
      and st = "\<lparr>start_time = ''2'', end_time = ''2'', turn_text = ''Hello there'',
          vtt_lines = [''WEBVTT'', [], ''00:00:02.000 --> 00:00:05.000'', ''Hello there'', []],
          cues = [\<lparr>cue_start = ''2'', cue_end = ''5'', cue_prefix = [],
                   cue_text = ''Hello there''\<rparr>]\<rparr>"]
  have "\<exists>out. format_time ''-1'' = Inr out" using inst neg by blast
  moreover have "\<exists>out. format_time ''-86399999913600.001'' = Inr out"
    using format_time_failure [where time = "''-86399999913600.001''"
        and n = "- 5529599994470400" and k = "- 6"] float_of_str_lower low
    by blast
  moreover have "\<exists>e. format_time ''-86399999913601'' = Inl e"
    using format_time_failure [where time = "''-86399999913601''"] float_of_str_below below
    by simp
  moreover have "\<exists>e. format_time ''86399999999999.999999'' = Inl e"
    using format_time_failure [where time = "''86399999999999.999999''"] float_of_str_upper upper
    by simp
  moreover have "\<exists>a b. format_time ''2'' = Inr a \<and> format_time ''5'' = Inr b"
    using inst hello_doc_state by simp
  moreover have "\<exists>e. format_time ''abc'' = Inl e"
    using format_time_failure [where time = "''abc''"] abc by simp
  moreover have "\<exists>e. convert bad_end_doc None False False = Inl e"
    using format_time_failure [where root = bad_end_doc and language = None
        and add_speakers = False and preserve_noise = False
        and turn = bad_end_turn and pre = "[bad_end_turn]"
        and a = "Element ''Sync'' [(''time'', ''0'')] (Some ''x'') []"
        and tx = "''x''" and ?t1.0 = "''abc''" and e = ValueError]
      turn format_time_abc
    by simp
  ultimately show ?thesis
    using neg turn format_time_abc float_of_str_lower float_of_str_below float_of_str_upper
    by simp
qed

text \<open>
  C5 as the spec states it fails: the negative time code \<open>-1\<close> does not make
  \<open>format_time\<close> fail; the rendering \<open>-1 day, 23:59:59\<close> of the duration is cut and padded
  like any other.
\<close>

theorem format_time_negative: "format_time ''-1'' = Inr ''0-1 day, 23:.000''"
  by (rule format_time_minus_1)

section \<open>Times of ten hours and more\<close>

text \<open>
  C2 fails on the code. From ten hours on the rendering of the duration has two hour
  digits, and the slice \<open>[:11]\<close> behind the added \<open>0\<close> keeps only two fractional digits
  of 36000.5 seconds; from one day on the rendering starts with the days, and the slice
  cuts the seconds off. Neither result has the form \<open>HH:MM:SS.mmm\<close> that the docstring
  of \<open>format_time\<close> and the comment of line 19 promise.
\<close>

theorem format_time_ten_hours:
  "format_time ''36000.5'' = Inr ''010:00:00.50''
   \<and> format_time ''86400'' = Inr ''01 day, 0:00.000''"
  by (simp add: format_time_36000_5 format_time_86400)

section \<open>The speaker prefix\<close>

text \<open>
  C8, as amended. With the speaker flag off no prefix is put in front of a cue's text:
  the text line of every cue is its stripped text, and no output line contains the
  marker \<open><v \<close> provided that neither the language tag nor any tail below a turn
  contains the character \<open><\<close>. With the flag on, the text line of every cue of a turn
  whose speaker id is in the table begins with \<open><v \<close>, the name and \<open>>\<close>; and every cue of
  the output carries the prefix of one of the turns.
\<close>

theorem speaker_prefix:
  "(convert_state root language False preserve_noise = Inr st \<longrightarrow>
      convert_lines root language False preserve_noise = Inr (vtt_lines st)
      \<and> (\<forall>c\<in>set (cues st). cue_prefix c = [])
      \<and> (language_plain language \<and> tails_plain root
           \<longrightarrow> (\<forall>l\<in>set (vtt_lines st). \<not> sublist ''<v '' l)))
   \<and> (turn_step True preserve_noise speakers s turn = Inr s'
        \<and> speakers (get_default (attrib turn) ''speaker'' []) = Some name \<longrightarrow>
      (\<exists>new. cues s' = cues s @ new
         \<and> vtt_lines s' = vtt_lines s @ concat (map cue_block new)
         \<and> (\<forall>c\<in>set new. cue_prefix c @ cue_text c = ''<v '' @ name @ ''>'' @ cue_text c)))
   \<and> (convert_state root language True preserve_noise = Inr st \<longrightarrow>
      (\<exists>table. speakers_of root = Inr table
         \<and> (\<forall>c\<in>set (cues st). \<exists>turn\<in>set (walked_turns root).
               cue_prefix c = turn_prefix table turn)))"
proof (intro conjI impI)
  assume ok: "convert_state root language False preserve_noise = Inr st"
  then show "convert_lines root language False preserve_noise = Inr (vtt_lines st)"
    by (simp add: convert_lines_def)
  show "\<forall>c\<in>set (cues st). cue_prefix c = []" using ok by (rule convert_state_no_prefix)
  assume "language_plain language \<and> tails_plain root"
  then have "plain_inv st" using ok convert_state_plain by blast
  then show "\<forall>l\<in>set (vtt_lines st). \<not> sublist ''<v '' l" by (simp add: plain_inv_def)
next
  assume h: "turn_step True preserve_noise speakers s turn = Inr s'
        \<and> speakers (get_default (attrib turn) ''speaker'' []) = Some name"
  then have "turn_inv s (if True then turn_prefix speakers turn else []) s'"
    using turn_step_turn_inv by blast
  moreover have "turn_prefix speakers turn = ''<v '' @ name @ ''>''"
    using h by (simp add: turn_prefix_def)
  ultimately show "\<exists>new. cues s' = cues s @ new
         \<and> vtt_lines s' = vtt_lines s @ concat (map cue_block new)
         \<and> (\<forall>c\<in>set new. cue_prefix c @ cue_text c = ''<v '' @ name @ ''>'' @ cue_text c)"
    unfolding turn_inv_def by auto
next
  assume "convert_state root language True preserve_noise = Inr st"
  then show "\<exists>table. speakers_of root = Inr table
         \<and> (\<forall>c\<in>set (cues st). \<exists>turn\<in>set (walked_turns root).
               cue_prefix c = turn_prefix table turn)"
    by (rule convert_state_turn_prefix)
qed

theorem speaker_prefix_witness:
  "convert_lines hello_doc (Some []) False False
     = Inr [''WEBVTT'', [], ''00:00:02.000 --> 00:00:05.000'', ''Hello there'', []]
   \<and> language_plain (Some []) \<and> tails_plain hello_doc
   \<and> \<not> sublist ''<v '' ''WEBVTT'' \<and> \<not> sublist ''<v '' ''00:00:02.000 --> 00:00:05.000''
   \<and> \<not> sublist ''<v '' ''Hello there''
   \<and> [''spk1'' \<mapsto> ''Alice''] (get_default (attrib hello_turn) ''speaker'' []) = Some ''Alice''
   \<and> (\<exists>new. [\<lparr>cue_start = ''2'', cue_end = ''5'', cue_prefix = ''<v Alice>'',
                  cue_text = ''Hello there''\<rparr>] = [] @ new
          \<and> (\<forall>c\<in>set new. cue_prefix c @ cue_text c = ''<v '' @ ''Alice'' @ ''>'' @ cue_text c))
   \<and> (\<exists>table. speakers_of hello_doc = Inr table
          \<and> (\<exists>turn\<in>set (walked_turns hello_doc). ''<v Alice>'' = turn_prefix table turn))"
proof -
  have plain: "language_plain (Some []) \<and> tails_plain hello_doc"
    using hello_doc_plain by (simp add: language_plain_def)
  have name: "[''spk1'' \<mapsto> ''Alice''] (get_default (attrib hello_turn) ''speaker'' [])
                = Some ''Alice''"
    by (simp add: hello_turn_def get_default_def)
  note off = speaker_prefix [where root = hello_doc and language = "Some []"
      and preserve_noise = False
      and st = "\<lparr>start_time = ''2'', end_time = ''2'', turn_text = ''Hello there'',
          vtt_lines = [''WEBVTT'', [], ''00:00:02.000 --> 00:00:05.000'', ''Hello there'', []],
          cues = [\<lparr>cue_start = ''2'', cue_end = ''5'', cue_prefix = [],
                   cue_text = ''Hello there''\<rparr>]\<rparr>"]
  note on = speaker_prefix [where root = hello_doc and language = "Some ''en''"
      and preserve_noise = False and speakers = "[''spk1'' \<mapsto> ''Alice'']"
      and s = "initial_state (Some ''en'')" and turn = hello_turn and name = "''Alice''"
      and s' = "\<lparr>start_time = ''2'', end_time = ''2'', turn_text = ''Hello there'',
          vtt_lines = [''WEBVTT'', ''Language: en'', [], ''00:00:02.000 --> 00:00:05.000'',
                       ''<v Alice>Hello there'', []],
          cues = [\<lparr>cue_start = ''2'', cue_end = ''5'', cue_prefix = ''<v Alice>'',
                   cue_text = ''Hello there''\<rparr>]\<rparr>"
      and st = "\<lparr>start_time = ''2'', end_time = ''2'', turn_text = ''Hello there'',
          vtt_lines = [''WEBVTT'', ''Language: en'', [], ''00:00:02.000 --> 00:00:05.000'',
                       ''<v Alice>Hello there'', []],
          cues = [\<lparr>cue_start = ''2'', cue_end = ''5'', cue_prefix = ''<v Alice>'',
                   cue_text = ''Hello there''\<rparr>]\<rparr>"]
  have lines: "convert_lines hello_doc (Some []) False False
     = Inr [''WEBVTT'', [], ''00:00:02.000 --> 00:00:05.000'', ''Hello there'', []]
   \<and> \<not> sublist ''<v '' ''WEBVTT'' \<and> \<not> sublist ''<v '' ''00:00:02.000 --> 00:00:05.000''
   \<and> \<not> sublist ''<v '' ''Hello there''"
    using off hello_doc_state plain by simp
  have turn: "\<exists>new. [\<lparr>cue_start = ''2'', cue_end = ''5'', cue_prefix = ''<v Alice>'',
                  cue_text = ''Hello there''\<rparr>] = [] @ new
          \<and> (\<forall>c\<in>set new. cue_prefix c @ cue_text c = ''<v '' @ ''Alice'' @ ''>'' @ cue_text c)"
    using on hello_turn_step name by (simp add: initial_state_def)
  have doc: "\<exists>table. speakers_of hello_doc = Inr table
          \<and> (\<exists>turn\<in>set (walked_turns hello_doc). ''<v Alice>'' = turn_prefix table turn)"
    using on hello_doc_en_state by simp
  show ?thesis using plain name lines turn doc by blast
qed

text \<open>
  C8 as the spec states it fails: with the flag off the output of \<open>marker_doc\<close> has a
  line that contains \<open><v \<close>, the text of its cue.
\<close>

theorem marker_without_prefix:
  "\<not> (\<forall>ls. convert_lines marker_doc None False False = Inr ls
          \<longrightarrow> (\<forall>l\<in>set ls. \<not> sublist ''<v '' l))"
  by (simp add: convert_lines_def marker_doc_state sublist_Cons_right)

section \<open>The order of the cues\<close>

text \<open>
  C3, as amended. Within a turn every cue ends where the next one starts, provided
  every \<open>Sync\<close> below the turn is followed by text that is not blank: the cues \<open>new\<close> that
  the step of the turn adds to the ones written before are such a chain. And when the
  time codes of the document, in the order in which the walk reads them (for each turn
  its \<open>startTime\<close>, the \<open>time\<close> of each \<open>Sync\<close> below it, its \<open>endTime\<close>), do not decrease
  under a reading \<open>v\<close> of the time codes as values of a linear order, then no cue of a
  conversion that succeeds starts before the one written before it ends, and no cue
  ends before it starts.
\<close>

theorem cue_ranges_ordered:
  fixes v :: "string \<Rightarrow> 'a::linorder"
  shows "(turn_step add_speakers preserve_noise speakers s turn = Inr s' \<and> syncs_have_text turn
      \<longrightarrow> (\<exists>new. cues s' = cues s @ new
             \<and> successively (\<lambda>c d. cue_end c = cue_start d) new))
   \<and> (convert_state root language add_speakers preserve_noise = Inr st
        \<and> sorted (map v (doc_time_codes root))
      \<longrightarrow> successively (\<lambda>c d. v (cue_end c) \<le> v (cue_start d)) (cues st)
        \<and> (\<forall>c\<in>set (cues st). v (cue_start c) \<le> v (cue_end c)))"
  using turn_step_chain convert_state_sorted sorted_cue_times by blast

theorem cue_ranges_ordered_witness:
  "syncs_have_text chain_turn
   \<and> (\<exists>new. [\<lparr>cue_start = ''1'', cue_end = ''2'', cue_prefix = [], cue_text = ''a''\<rparr>,
              \<lparr>cue_start = ''2'', cue_end = ''3'', cue_prefix = [], cue_text = ''b''\<rparr>]
               = cues (initial_state None) @ new
          \<and> successively (\<lambda>c d. cue_end c = cue_start d) new)
   \<and> sorted (map time_micros (doc_time_codes gap_doc))
   \<and> successively (\<lambda>c d. time_micros (cue_end c) \<le> time_micros (cue_start d))
       [\<lparr>cue_start = ''1'', cue_end = ''2'', cue_prefix = [], cue_text = ''a''\<rparr>,
        \<lparr>cue_start = ''3'', cue_end = ''4'', cue_prefix = [], cue_text = ''b''\<rparr>]"
proof -
  have codes: "sorted (map time_micros (doc_time_codes gap_doc))"
    by (simp add: gap_doc_codes micros_values)
  have "\<exists>new. cues \<lparr>start_time = ''2'', end_time = ''2'', turn_text = ''b'',
          vtt_lines = [''WEBVTT'', [], ''00:00:01.000 --> 00:00:02.000'', ''a'', [],
                       ''00:00:02.000 --> 00:00:03.000'', ''b'', []],
          cues = [\<lparr>cue_start = ''1'', cue_end = ''2'', cue_prefix = [], cue_text = ''a''\<rparr>,
                  \<lparr>cue_start = ''2'', cue_end = ''3'', cue_prefix = [], cue_text = ''b''\<rparr>]\<rparr>
             = cues (initial_state None) @ new
          \<and> successively (\<lambda>c d. cue_end c = cue_start d) new"
    using cue_ranges_ordered [where add_speakers = False and preserve_noise = False
        and speakers = Map.empty and s = "initial_state None" and turn = chain_turn
        and v = time_micros]
      chain_turn_step chain_turn_text
    by blast
  then have chain: "\<exists>new. [\<lparr>cue_start = ''1'', cue_end = ''2'', cue_prefix = [], cue_text = ''a''\<rparr>,
              \<lparr>cue_start = ''2'', cue_end = ''3'', cue_prefix = [], cue_text = ''b''\<rparr>]
               = cues (initial_state None) @ new
          \<and> successively (\<lambda>c d. cue_end c = cue_start d) new"
    by simp
  have "successively (\<lambda>c d. time_micros (cue_end c) \<le> time_micros (cue_start d))
       (cues \<lparr>start_time = ''3'', end_time = ''3'', turn_text = ''b'',
          vtt_lines = [''WEBVTT'', [], ''00:00:01.000 --> 00:00:02.000'', ''a'', [],
                       ''00:00:03.000 --> 00:00:04.000'', ''b'', []],
          cues = [\<lparr>cue_start = ''1'', cue_end = ''2'', cue_prefix = [], cue_text = ''a''\<rparr>,
                  \<lparr>cue_start = ''3'', cue_end = ''4'', cue_prefix = [], cue_text = ''b''\<rparr>]\<rparr>)"
    using cue_ranges_ordered [where root = gap_doc and language = None
        and add_speakers = False and preserve_noise = False and v = time_micros]
      gap_doc_state codes
    by blast
  then have order: "successively (\<lambda>c d. time_micros (cue_end c) \<le> time_micros (cue_start d))
       [\<lparr>cue_start = ''1'', cue_end = ''2'', cue_prefix = [], cue_text = ''a''\<rparr>,
        \<lparr>cue_start = ''3'', cue_end = ''4'', cue_prefix = [], cue_text = ''b''\<rparr>]"
    by simp
  show ?thesis using chain_turn_text chain codes order by blast
qed

text \<open>
  C3 as the spec states it fails on a turn with a \<open>Sync\<close> that no text follows. In the
  document with the single turn from 0 to 4 that has the text \<open>a\<close> behind the \<open>Sync\<close> at
  1, nothing behind the one at 2 and \<open>b\<close> behind the one at 3, the \<open>Sync\<close> at 2 writes
  the cue from 1 to 2 and the \<open>Sync\<close> at 3 moves the start to 3 without writing one: the
  two cues of the turn are 1 to 2 and 3 to 4, and the first does not end where the
  second starts.
\<close>

theorem gap_between_cues:
  "walked_turns gap_doc = [gap_turn]
   \<and> (\<exists>st. convert_state gap_doc None False False = Inr st
         \<and> map (\<lambda>c. (cue_start c, cue_end c)) (cues st) = [(''1'', ''2''), (''3'', ''4'')]
         \<and> \<not> successively (\<lambda>c d. cue_end c = cue_start d) (cues st))"
  by (simp add: gap_doc_walked gap_doc_state)

end
